theory Spec2Isabelle
  imports Complex_Main "HOL-Library.Product_Lexorder"
begin

section \<open>Python strings\<close>

text \<open>
  A Python \<open>str\<close> is modelled as a \<open>string\<close> whose characters are the code points below
  256. On that range \<open>str.isspace\<close> holds for the ASCII white space, the separators
  \<open>0x1c\<close> to \<open>0x1f\<close>, NEL (\<open>0x85\<close>) and the no-break space (\<open>0xa0\<close>), and
  \<open>str.isdigit\<close> holds for \<open>0\<close> to \<open>9\<close> and for the superscripts one, two, three
  (\<open>0xb9\<close>, \<open>0xb2\<close>, \<open>0xb3\<close>).
\<close>

definition isspace :: "char \<Rightarrow> bool" where
  "isspace c = ((of_char c :: nat) \<in> {9, 10, 11, 12, 13, 28, 29, 30, 31, 32, 133, 160})"

definition isdigit :: "char \<Rightarrow> bool" where
  "isdigit c = (let n = (of_char c :: nat) in (48 \<le> n \<and> n \<le> 57) \<or> n \<in> {178, 179, 185})"

text \<open>\<open>s.strip()\<close>: white space removed at both ends.\<close>

definition strip :: "string \<Rightarrow> string" where
  "strip s = rev (dropWhile isspace (rev (dropWhile isspace s)))"

text \<open>\<open>s.replace(" ", "")\<close>: every space character removed.\<close>

definition replace_space :: "string \<Rightarrow> string" where
  "replace_space s = filter (\<lambda>c. c \<noteq> CHR '' '') s"

text \<open>
  \<^verbatim>\<open>
  def normalize_whatsapp(s: str) -> str:
      s = (s or "").strip().replace(" ", "")
      if s.startswith("+"):
          rest = "".join(ch for ch in s[1:] if ch.isdigit())
          return "+" + rest
      return "".join(ch for ch in s if ch.isdigit())
  \<close>
\<close>

definition normalize_whatsapp :: "string \<Rightarrow> string" where
  "normalize_whatsapp s0 =
     (let s = replace_space (strip s0) in
      case s of
        [] \<Rightarrow> []
      | c # rest \<Rightarrow>
          if c = CHR ''+'' then CHR ''+'' # filter isdigit rest
          else filter isdigit s)"

text \<open>The two shapes of a normalised number.\<close>

definition canonical_phone :: "string \<Rightarrow> bool" where
  "canonical_phone s =
     (list_all isdigit s \<or> (case s of [] \<Rightarrow> False | c # r \<Rightarrow> c = CHR ''+'' \<and> list_all isdigit r))"

section \<open>The schema and its migrations\<close>

text \<open>Exceptions of the Python code that reach a handler or escape it.\<close>

datatype exn =
    ValueError string
  | OSError string
  | IntegrityError string
  | OperationalError string
  | TypeError string

text \<open>
  The part of the world \<open>init_db\<close> works on: whether the upload directory exists, the
  tables of \<open>marketplace.db\<close> with their column names, its indexes, and the rows of
  \<open>schema_migrations\<close> (the ledger). Tables and indexes are kept in creation order.
  The column \<open>version\<close> is the primary key of the ledger, so an insert of a version it
  already holds raises \<open>IntegrityError\<close>. The rows of the other tables are not part of
  this state: the statements of \<open>init_db\<close> neither read nor write them.
\<close>

record index_def =
  on_table :: string
  on_columns :: "string list"
  is_unique :: bool

record schema =
  upload_dir :: bool
  tables :: "(string \<times> string list) list"
  indexes :: "(string \<times> index_def) list"
  ledger :: "int list"

text \<open>
  A statement either succeeds or raises; what it had written before raising stays (DDL
  statements run in autocommit mode), so the state is returned in both cases.
\<close>

type_synonym step = "schema \<Rightarrow> exn option \<times> schema"

definition then_do :: "step \<Rightarrow> step \<Rightarrow> step" where
  "then_do f g s = (case f s of (None, s1) \<Rightarrow> g s1 | (Some e, s1) \<Rightarrow> (Some e, s1))"

definition has_table :: "string \<Rightarrow> schema \<Rightarrow> bool" where
  "has_table t s = (t \<in> fst ` set (tables s))"

definition has_index :: "string \<Rightarrow> schema \<Rightarrow> bool" where
  "has_index i s = (i \<in> fst ` set (indexes s))"

text \<open>\<open>PRAGMA table_info(t)\<close>: the column names of \<open>t\<close>, no rows when there is no such table.\<close>

definition table_info :: "string \<Rightarrow> schema \<Rightarrow> string list" where
  "table_info t s = (case map_of (tables s) t of None \<Rightarrow> [] | Some cols \<Rightarrow> cols)"

text \<open>
  \<open>CREATE TABLE IF NOT EXISTS\<close>: nothing happens when the table exists; tables and indexes
  share one name space, so the name of an index is refused.
\<close>

definition create_table_if_not_exists :: "string \<Rightarrow> string list \<Rightarrow> step" where
  "create_table_if_not_exists t cols s =
     (if has_table t s then (None, s)
      else if has_index t s then (Some (OperationalError ''there is already an index named so''), s)
      else (None, s\<lparr>tables := tables s @ [(t, cols)]\<rparr>))"

text \<open>\<open>CREATE [UNIQUE] INDEX IF NOT EXISTS name ON t(cols)\<close>.\<close>

definition create_index_if_not_exists :: "string \<Rightarrow> bool \<Rightarrow> string \<Rightarrow> string list \<Rightarrow> step" where
  "create_index_if_not_exists name uniq t cols s =
     (if \<not> has_table t s then (Some (OperationalError ''no such table''), s)
      else if has_table name s then (Some (OperationalError ''there is already a table named so''), s)
      else if has_index name s then (None, s)
      else if \<not> set cols \<subseteq> set (table_info t s) then (Some (OperationalError ''no such column''), s)
      else (None, s\<lparr>indexes := indexes s @
              [(name, \<lparr>on_table = t, on_columns = cols, is_unique = uniq\<rparr>)]\<rparr>))"

text \<open>\<open>ALTER TABLE t ADD COLUMN c\<close>.\<close>

definition alter_table_add_column :: "string \<Rightarrow> string \<Rightarrow> step" where
  "alter_table_add_column t c s =
     (if \<not> has_table t s then (Some (OperationalError ''no such table''), s)
      else if c \<in> set (table_info t s) then (Some (OperationalError ''duplicate column name''), s)
      else (None, s\<lparr>tables := map (\<lambda>(n, cols). if n = t then (n, cols @ [c]) else (n, cols)) (tables s)\<rparr>))"

text \<open>
  \<^verbatim>\<open>
  def applied_versions():
      rows = db.execute("SELECT version FROM schema_migrations ORDER BY version").fetchall()
      return {r[0] for r in rows}

  def apply(version: int, fn):
      if version in applied_versions():
          return
      fn()
      db.execute("INSERT INTO schema_migrations (version) VALUES (?)", (version,))
      db.commit()
  \<close>
  (\<open>apply\<close> is a keyword of the prover, so the function is named \<open>apply_migration\<close>.)
\<close>

definition applied_versions :: "schema \<Rightarrow> exn + int set" where
  "applied_versions s =
     (if has_table ''schema_migrations'' s then Inr (set (ledger s))
      else Inl (OperationalError ''no such table''))"

definition insert_version :: "int \<Rightarrow> step" where
  "insert_version version s =
     (if \<not> has_table ''schema_migrations'' s then (Some (OperationalError ''no such table''), s)
      else if version \<in> set (ledger s) then (Some (IntegrityError ''UNIQUE constraint failed''), s)
      else (None, s\<lparr>ledger := ledger s @ [version]\<rparr>))"

definition apply_migration :: "int \<Rightarrow> step \<Rightarrow> step" where
  "apply_migration version fn s =
     (case applied_versions s of
        Inl e \<Rightarrow> (Some e, s)
      | Inr vs \<Rightarrow> if version \<in> vs then (None, s) else then_do fn (insert_version version) s)"

definition migration_v1 :: step where
  "migration_v1 =
     create_table_if_not_exists ''products'' [''id'', ''name'', ''price'', ''details'', ''created_at'']"

definition migration_v2 :: step where
  "migration_v2 =
     then_do
       (create_table_if_not_exists ''sellers'' [''id'', ''name'', ''whatsapp'', ''pin_hash'', ''created_at''])
       (create_index_if_not_exists ''idx_sellers_whatsapp'' True ''sellers'' [''whatsapp''])"

definition add_seller_id_if_absent :: step where
  "add_seller_id_if_absent s =
     (if ''seller_id'' \<notin> set (table_info ''products'' s)
      then alter_table_add_column ''products'' ''seller_id'' s
      else (None, s))"

definition migration_v3 :: step where
  "migration_v3 =
     then_do add_seller_id_if_absent
       (create_index_if_not_exists ''idx_products_seller_id'' False ''products'' [''seller_id''])"

definition migration_v4 :: step where
  "migration_v4 =
     then_do
       (create_table_if_not_exists ''product_images''
          [''id'', ''product_id'', ''filename'', ''sort_order'', ''created_at''])
       (create_index_if_not_exists ''idx_product_images_product_id'' False ''product_images''
          [''product_id''])"

text \<open>\<open>os.makedirs(UPLOAD_DIR, exist_ok=True)\<close>.\<close>

definition makedirs_upload_dir :: step where
  "makedirs_upload_dir s = (None, s\<lparr>upload_dir := True\<rparr>)"

text \<open>
  \<open>init_db\<close>: the upload directory, the ledger table, then the four calls of \<open>apply\<close>
  in the order they are written.
\<close>

definition init_db :: step where
  "init_db =
     then_do makedirs_upload_dir
    (then_do (create_table_if_not_exists ''schema_migrations'' [''version''])
    (then_do (apply_migration 1 migration_v1)
    (then_do (apply_migration 2 migration_v2)
    (then_do (apply_migration 3 migration_v3)
             (apply_migration 4 migration_v4)))))"

text \<open>A list of \<open>apply\<close> calls, run in the order of the list.\<close>

fun apply_all :: "(int \<times> step) list \<Rightarrow> step" where
  "apply_all [] s = (None, s)"
| "apply_all ((version, fn) # rest) s = then_do (apply_migration version fn) (apply_all rest) s"

text \<open>The store before the first start: no upload directory, an empty database file.\<close>

definition fresh :: schema where
  "fresh = \<lparr>upload_dir = False, tables = [], indexes = [], ledger = []\<rparr>"

text \<open>
  The order in which the schema evolves: nothing that \<open>init_db\<close> reads ever goes away.
\<close>

definition grows :: "schema \<Rightarrow> schema \<Rightarrow> bool" where
  "grows s s' =
     ((upload_dir s \<longrightarrow> upload_dir s')
      \<and> (\<forall>t. has_table t s \<longrightarrow> has_table t s')
      \<and> (\<forall>t c. c \<in> set (table_info t s) \<longrightarrow> c \<in> set (table_info t s'))
      \<and> set (ledger s) \<subseteq> set (ledger s'))"

definition inflating :: "step \<Rightarrow> bool" where
  "inflating f = (\<forall>s. grows s (snd (f s)))"

definition rerun_same :: "step \<Rightarrow> bool" where
  "rerun_same f = (\<forall>s. f (snd (f s)) = f s)"

definition settled_upward :: "step \<Rightarrow> bool" where
  "settled_upward f = (\<forall>s s'. f s = (None, s) \<longrightarrow> grows s s' \<longrightarrow> f s' = (None, s'))"

definition keeps_ledger :: "step \<Rightarrow> bool" where
  "keeps_ledger f = (\<forall>s. ledger (snd (f s)) = ledger s)"

text \<open>The four calls of \<open>apply\<close> in \<open>init_db\<close>, as a list.\<close>

definition steps_in_code :: "(int \<times> step) list" where
  "steps_in_code = [(1, migration_v1), (2, migration_v2), (3, migration_v3), (4, migration_v4)]"





text \<open>The schema after the four migrations.\<close>

definition migrated :: schema where
  "migrated =
     \<lparr>upload_dir = True,
      tables =
        [(''schema_migrations'', [''version'']),
         (''products'', [''id'', ''name'', ''price'', ''details'', ''created_at'', ''seller_id'']),
         (''sellers'', [''id'', ''name'', ''whatsapp'', ''pin_hash'', ''created_at'']),
         (''product_images'', [''id'', ''product_id'', ''filename'', ''sort_order'', ''created_at''])],
      indexes =
        [(''idx_sellers_whatsapp'',
            \<lparr>on_table = ''sellers'', on_columns = [''whatsapp''], is_unique = True\<rparr>),
         (''idx_products_seller_id'',
            \<lparr>on_table = ''products'', on_columns = [''seller_id''], is_unique = False\<rparr>),
         (''idx_product_images_product_id'',
            \<lparr>on_table = ''product_images'', on_columns = [''product_id''], is_unique = False\<rparr>)],
      ledger = [1, 2, 3, 4]\<rparr>"

section \<open>Image intake\<close>

text \<open>
  An uploaded file: the name and the content type the client declares, and the bytes.
\<close>

record upload =
  u_filename :: string
  u_content_type :: string
  u_content :: string

text \<open>
  What the code takes from outside:
  \<^item> \<open>pillow\<close>: \<open>Image.open\<close>, \<open>verify\<close> and \<open>img.format\<close> on the bytes of a stream; it
    raises, or gives the name of the format it has found (the empty name for \<open>None\<close>).
    For bytes that are no image \<open>Image.open\<close> raises \<open>PIL.UnidentifiedImageError\<close>, a
    subclass of \<open>OSError\<close>;
  \<^item> \<open>uuid4_hex\<close>: the successive values of \<open>uuid.uuid4().hex\<close>;
  \<^item> \<open>generate_password_hash\<close> and \<open>check_password_hash\<close> of werkzeug (the salt is
    left out);
  \<^item> \<open>max_variable_number\<close>: the most \<open>?\<close> parameters the engine takes in one
    statement (\<open>SQLITE_MAX_VARIABLE_NUMBER\<close>: 999 before SQLite 3.32, 32766 since);
    a statement with more raises \<open>OperationalError\<close>.
\<close>

record env =
  pillow :: "string \<Rightarrow> exn + string"
  uuid4_hex :: "nat \<Rightarrow> string"
  generate_password_hash :: "string \<Rightarrow> string"
  check_password_hash :: "string \<Rightarrow> string \<Rightarrow> bool"
  max_variable_number :: nat

text \<open>\<open>str.upper\<close> on the letters a to z; the names of formats are ASCII.\<close>

definition upper :: "string \<Rightarrow> string" where
  "upper s =
     map (\<lambda>c. case map_of (zip ''abcdefghijklmnopqrstuvwxyz'' ''ABCDEFGHIJKLMNOPQRSTUVWXYZ'') c of
                None \<Rightarrow> c
              | Some C \<Rightarrow> C) s"

definition ALLOWED_IMAGE_EXTS :: "string set" where
  "ALLOWED_IMAGE_EXTS = {''.jpg'', ''.jpeg'', ''.png'', ''.webp''}"

text \<open>
  \<^verbatim>\<open>
  def _sniff_and_get_ext(file_storage):
      file_storage.stream.seek(0)
      img = Image.open(file_storage.stream)
      img.verify()
      fmt = (img.format or "").upper()
      if fmt == "JPEG":   ext = ".jpg"
      elif fmt == "PNG":  ext = ".png"
      elif fmt == "WEBP": ext = ".webp"
      else: raise ValueError("Unsupported image format")
      file_storage.stream.seek(0)
      return ext
  \<close>
\<close>

definition sniff_and_get_ext :: "env \<Rightarrow> upload \<Rightarrow> exn + string" where
  "sniff_and_get_ext env file_storage =
     (case pillow env (u_content file_storage) of
        Inl e \<Rightarrow> Inl e
      | Inr format \<Rightarrow>
          (let fmt = upper format in
           if fmt = ''JPEG'' then Inr ''.jpg''
           else if fmt = ''PNG'' then Inr ''.png''
           else if fmt = ''WEBP'' then Inr ''.webp''
           else Inl (ValueError ''Unsupported image format'')))"

text \<open>
  The upload directory maps a file name to the bytes of the file; \<open>io\<close> pairs it with the
  number of values \<open>uuid4\<close> has given so far.
\<close>

type_synonym dir = "string \<rightharpoonup> string"
type_synonym io = "dir \<times> nat"

text \<open>
  \<^verbatim>\<open>
  while os.path.exists(abs_path):
      filename = f"{uuid.uuid4().hex}{ext}"
      abs_path = os.path.join(UPLOAD_DIR, filename)
  \<close>
  The loop ends when a name is free; nothing bounds the number of its rounds.
\<close>

partial_function (option) while_exists :: "env \<Rightarrow> string \<Rightarrow> dir \<Rightarrow> string \<Rightarrow> nat \<Rightarrow> (string \<times> nat) option" where
  "while_exists env ext d filename n =
     (if d filename \<noteq> None then while_exists env ext d (uuid4_hex env n @ ext) (Suc n)
      else Some (filename, n))"

declare while_exists.simps [code]

text \<open>
  \<^verbatim>\<open>
  def save_upload_image(file_storage) -> str:
      ext = _sniff_and_get_ext(file_storage)
      if ext not in ALLOWED_IMAGE_EXTS:
          raise ValueError("Unsupported image type")
      filename = f"{uuid.uuid4().hex}{ext}"
      abs_path = os.path.join(UPLOAD_DIR, filename)
      while os.path.exists(abs_path): ...
      file_storage.save(abs_path)
      return filename
  \<close>
  The result is the exception or the file name, with the directory as the call leaves it.
\<close>

definition save_upload_image :: "env \<Rightarrow> upload \<Rightarrow> io \<Rightarrow> ((exn + string) \<times> io) option" where
  "save_upload_image env file_storage st =
     (case sniff_and_get_ext env file_storage of
        Inl e \<Rightarrow> Some (Inl e, st)
      | Inr ext \<Rightarrow>
          if ext \<notin> ALLOWED_IMAGE_EXTS then Some (Inl (ValueError ''Unsupported image type''), st)
          else
            (case while_exists env ext (fst st) (uuid4_hex env (snd st) @ ext) (Suc (snd st)) of
               None \<Rightarrow> None
             | Some (filename, n) \<Rightarrow>
                 Some (Inr filename, ((fst st)(filename \<mapsto> u_content file_storage), n))))"

text \<open>The content decodes as an image of one of the three formats.\<close>

definition decodes_as_allowed :: "env \<Rightarrow> upload \<Rightarrow> bool" where
  "decodes_as_allowed env file_storage =
     (case pillow env (u_content file_storage) of
        Inl e \<Rightarrow> False
      | Inr format \<Rightarrow> upper format \<in> {''JPEG'', ''PNG'', ''WEBP''})"

section \<open>The rows of the store\<close>

text \<open>
  A Python \<open>float\<close> as far as the code looks at one: \<open>float(price_raw)\<close> may give a
  finite number, an infinity or NaN, and \<open>price < 0\<close> is false for NaN.
\<close>

datatype pyfloat = Finite real | PosInf | NegInf | NaN

fun lt_zero :: "pyfloat \<Rightarrow> bool" where
  "lt_zero (Finite r) = (r < 0)"
| "lt_zero NegInf = True"
| "lt_zero PosInf = False"
| "lt_zero NaN = False"

record seller =
  s_id :: int
  s_name :: string
  s_whatsapp :: string
  s_pin_hash :: string
  s_created_at :: string

record product =
  p_id :: int
  p_name :: string
  p_price :: pyfloat
  p_details :: string
  p_created_at :: string
  p_seller_id :: "int option"

record product_image =
  i_id :: int
  i_product_id :: int
  i_filename :: string
  i_sort_order :: int
  i_created_at :: string

text \<open>
  The three tables, rows in the order of insertion, and for each the largest row id it has
  ever held (\<open>sqlite_sequence\<close>: the ids are \<open>AUTOINCREMENT\<close>, the next one is one more).
\<close>

record tables =
  sellers :: "seller list"
  products :: "product list"
  product_images :: "product_image list"
  seq_sellers :: int
  seq_products :: int
  seq_product_images :: int

text \<open>
  \<open>INSERT INTO sellers\<close>: the unique index \<open>idx_sellers_whatsapp\<close> refuses a second row
  with the same \<open>whatsapp\<close>.
\<close>

definition insert_seller :: "string \<Rightarrow> string \<Rightarrow> string \<Rightarrow> string \<Rightarrow> tables \<Rightarrow> exn + int \<times> tables" where
  "insert_seller name whatsapp pin_hash created_at t =
     (if whatsapp \<in> s_whatsapp ` set (sellers t)
      then Inl (IntegrityError ''UNIQUE constraint failed: sellers.whatsapp'')
      else
        (let new_id = seq_sellers t + 1 in
         Inr (new_id,
              t\<lparr>sellers := sellers t @
                    [\<lparr>s_id = new_id, s_name = name, s_whatsapp = whatsapp,
                      s_pin_hash = pin_hash, s_created_at = created_at\<rparr>],
                seq_sellers := new_id\<rparr>)))"

text \<open>
  \<open>INSERT INTO products\<close>: the column \<open>seller_id\<close> has no constraint. The engine binds
  a NaN as \<open>NULL\<close>, which \<open>price REAL NOT NULL\<close> refuses.
\<close>

definition insert_product ::
  "string \<Rightarrow> pyfloat \<Rightarrow> string \<Rightarrow> string \<Rightarrow> int \<Rightarrow> tables \<Rightarrow> exn + int \<times> tables" where
  "insert_product name price details created_at seller_id t =
     (if price = NaN then Inl (IntegrityError ''NOT NULL constraint failed: products.price'')
      else
        (let new_id = seq_products t + 1 in
         Inr (new_id,
              t\<lparr>products := products t @
                    [\<lparr>p_id = new_id, p_name = name, p_price = price, p_details = details,
                      p_created_at = created_at, p_seller_id = Some seller_id\<rparr>],
                seq_products := new_id\<rparr>)))"

text \<open>
  \<open>INSERT INTO product_images\<close>: \<open>product_id\<close> references \<open>products(id)\<close> and foreign
  keys are on, so a product that does not exist is refused.
\<close>

definition insert_product_image :: "int \<Rightarrow> string \<Rightarrow> int \<Rightarrow> string \<Rightarrow> tables \<Rightarrow> exn + tables" where
  "insert_product_image product_id filename sort_order created_at t =
     (if product_id \<notin> p_id ` set (products t)
      then Inl (IntegrityError ''FOREIGN KEY constraint failed'')
      else
        (let new_id = seq_product_images t + 1 in
         Inr (t\<lparr>product_images := product_images t @
                    [\<lparr>i_id = new_id, i_product_id = product_id, i_filename = filename,
                      i_sort_order = sort_order, i_created_at = created_at\<rparr>],
                seq_product_images := new_id\<rparr>)))"

text \<open>\<open>DELETE FROM products WHERE id=?\<close>, with \<open>ON DELETE CASCADE\<close> on the images.\<close>

definition delete_product_row :: "int \<Rightarrow> tables \<Rightarrow> tables" where
  "delete_product_row product_id t =
     t\<lparr>products := filter (\<lambda>p. p_id p \<noteq> product_id) (products t),
       product_images := filter (\<lambda>r. i_product_id r \<noteq> product_id) (product_images t)\<rparr>"

text \<open>
  \<^verbatim>\<open>
  for fn in filenames:
      try: os.remove(os.path.join(UPLOAD_DIR, fn))
      except OSError: pass
  \<close>
\<close>

fun remove_files :: "string list \<Rightarrow> dir \<Rightarrow> dir" where
  "remove_files [] d = d"
| "remove_files (fn # fns) d = remove_files fns (d(fn := None))"

section \<open>The requests\<close>

text \<open>
  The state between two requests: what is committed to the database, the upload
  directory, and the number of \<open>uuid4\<close> values drawn. A request works on its own
  connection; what it has not committed is lost when the connection is closed.
\<close>

record state =
  db :: tables
  files :: dir
  drawn :: nat

record product_view =
  v_id :: int
  v_name :: string
  v_price :: pyfloat
  v_details :: string
  v_created_at :: string
  v_seller_id :: "int option"
  v_seller :: "(int \<times> string option \<times> string option) option"
  v_images :: "string list"

datatype body =
    Error string
  | SellerJson int string string string
  | ProductJson product_view
  | ProductsJson "product_view list"
  | Ok

text \<open>A response with its status, or the exception no handler has caught.\<close>

datatype response = Reply nat body | Uncaught exn

text \<open>
  The session holds the id that \<open>sellers_register\<close> or \<open>sellers_login\<close> has put there, an
  integer, or nothing; \<open>current_seller_id\<close> gives it back.
\<close>

definition current_seller_id :: "int option \<Rightarrow> int option" where
  "current_seller_id session = session"

text \<open>
  \<open>product_to_dict\<close> on a row of \<open>products\<close> left-joined with \<open>sellers\<close>: the seller is
  shown when \<open>seller_id\<close> is set and not zero.
\<close>

definition product_to_dict :: "tables \<Rightarrow> product \<Rightarrow> string list \<Rightarrow> product_view" where
  "product_to_dict t row imgs =
     \<lparr>v_id = p_id row, v_name = p_name row, v_price = p_price row, v_details = p_details row,
      v_created_at = p_created_at row, v_seller_id = p_seller_id row,
      v_seller =
        (case p_seller_id row of
           None \<Rightarrow> None
         | Some sid \<Rightarrow>
             if sid = 0 then None
             else (let s = find (\<lambda>s. s_id s = sid) (sellers t)
                   in Some (sid, map_option s_name s, map_option s_whatsapp s))),
      v_images = map (\<lambda>fn. ''/uploads/'' @ fn) imgs\<rparr>"



text \<open>
  \<open>sellers_register\<close>; the fields of the JSON body are given as \<open>data.get(..) or ""\<close> has
  them, \<open>created_at\<close> is the value of \<open>now_utc()\<close>. \<open>str.isdigit\<close> is false for the
  empty string.
\<close>

record register_data =
  d_name :: string
  d_whatsapp :: string
  d_pin :: string

definition str_isdigit :: "string \<Rightarrow> bool" where
  "str_isdigit s = (s \<noteq> [] \<and> list_all isdigit s)"

definition sellers_register ::
  "env \<Rightarrow> register_data \<Rightarrow> string \<Rightarrow> int option \<Rightarrow> state \<Rightarrow> response \<times> int option \<times> state" where
  "sellers_register env data created_at session st =
     (let name = strip (d_name data);
          whatsapp = normalize_whatsapp (d_whatsapp data);
          pin = strip (d_pin data)
      in
      if length name < 2 \<or> length name > 60 then
        (Reply 400 (Error ''Invalid name''), session, st)
      else if whatsapp = [] \<or> length whatsapp < 10 then
        (Reply 400 (Error ''Invalid WhatsApp''), session, st)
      else if \<not> str_isdigit pin \<or> \<not> (4 \<le> length pin \<and> length pin \<le> 8) then
        (Reply 400 (Error ''PIN must be 4-8 digits''), session, st)
      else
        (case insert_seller name whatsapp (generate_password_hash env pin) created_at (db st) of
           Inl e \<Rightarrow>
             (case e of
                IntegrityError m \<Rightarrow> (Reply 409 (Error ''WhatsApp already registered''), session, st)
              | _ \<Rightarrow> (Uncaught e, session, st))
         | Inr (seller_id, t) \<Rightarrow>
             (Reply 201 (SellerJson seller_id name whatsapp created_at), Some seller_id,
              st\<lparr>db := t\<rparr>)))"

definition sellers_login ::
  "env \<Rightarrow> register_data \<Rightarrow> int option \<Rightarrow> state \<Rightarrow> response \<times> int option \<times> state" where
  "sellers_login env data session st =
     (let whatsapp = normalize_whatsapp (d_whatsapp data);
          pin = strip (d_pin data)
      in
      if whatsapp = [] \<or> pin = [] then
        (Reply 400 (Error ''whatsapp and pin required''), session, st)
      else
        (case find (\<lambda>s. s_whatsapp s = whatsapp) (sellers (db st)) of
           None \<Rightarrow> (Reply 401 (Error ''Invalid credentials''), session, st)
         | Some row \<Rightarrow>
             if \<not> check_password_hash env (s_pin_hash row) pin then
               (Reply 401 (Error ''Invalid credentials''), session, st)
             else
               (Reply 200 (SellerJson (s_id row) (s_name row) (s_whatsapp row) (s_created_at row)),
                Some (s_id row), st)))"

definition sellers_logout :: "int option \<Rightarrow> state \<Rightarrow> response \<times> int option \<times> state" where
  "sellers_logout session st = (Reply 200 Ok, None, st)"

text \<open>
  \<open>delete_product\<close>: \<open>not seller_id\<close> holds for no id and for the id 0.
\<close>

definition delete_product :: "int option \<Rightarrow> int \<Rightarrow> state \<Rightarrow> response \<times> state" where
  "delete_product session product_id st =
     (case current_seller_id session of
        None \<Rightarrow> (Reply 401 (Error ''login required''), st)
      | Some seller_id \<Rightarrow>
          if seller_id = 0 then (Reply 401 (Error ''login required''), st)
          else
            (case find (\<lambda>p. p_id p = product_id) (products (db st)) of
               None \<Rightarrow> (Reply 404 (Error ''not found''), st)
             | Some row \<Rightarrow>
                 if p_seller_id row \<noteq> Some seller_id then (Reply 403 (Error ''forbidden''), st)
                 else
                   (let filenames = map i_filename
                          (filter (\<lambda>r. i_product_id r = product_id) (product_images (db st)))
                    in (Reply 200 Ok,
                        st\<lparr>db := delete_product_row product_id (db st),
                           files := remove_files filenames (files st)\<rparr>))))"

text \<open>
  The form of \<open>create_product\<close>: \<open>name\<close> and \<open>details\<close> as \<open>request.form.get(..) or ""\<close>
  has them, and the value of \<open>float(price_raw)\<close>, or nothing when it raises (no price,
  or no number).
\<close>

record form =
  f_name :: string
  f_details :: string
  f_price :: "pyfloat option"

text \<open>
  The loop over the files, inside the \<open>try\<close>:
  \<^verbatim>\<open>
  for i, f in enumerate(files or []):
      if not f or not getattr(f, "filename", ""):
          continue
      filename = save_upload_image(f)
      saved_filenames.append(filename)
      db.execute("INSERT INTO product_images (product_id, filename, sort_order, created_at) ...",
                 (product_id, filename, i, created_at))
  \<close>
  A \<open>FileStorage\<close> is false when its file name is empty. The loop state holds the rows
  of the open transaction, the directory, and the names saved so far; the result says
  which exception has ended the loop, if one has.
\<close>

record loop_state =
  work :: tables
  disk :: dir
  rng :: nat
  saved_filenames :: "string list"

fun save_images ::
  "env \<Rightarrow> int \<Rightarrow> string \<Rightarrow> int \<Rightarrow> upload list \<Rightarrow> loop_state \<Rightarrow> (exn option \<times> loop_state) option" where
  "save_images env product_id created_at i [] l = Some (None, l)"
| "save_images env product_id created_at i (f # rest) l =
     (if u_filename f = [] then save_images env product_id created_at (i + 1) rest l
      else
        (case save_upload_image env f (disk l, rng l) of
           None \<Rightarrow> None
         | Some (Inl e, io) \<Rightarrow> Some (Some e, l\<lparr>disk := fst io, rng := snd io\<rparr>)
         | Some (Inr filename, io) \<Rightarrow>
             (let l1 = l\<lparr>disk := fst io, rng := snd io,
                         saved_filenames := saved_filenames l @ [filename]\<rparr>
              in case insert_product_image product_id filename i created_at (work l) of
                   Inl e \<Rightarrow> Some (Some e, l1)
                 | Inr t \<Rightarrow> save_images env product_id created_at (i + 1) rest (l1\<lparr>work := t\<rparr>))))"

text \<open>
  \<open>create_product\<close>. The product row is inserted and committed first (an exception
  of this insert leaves the handler with nothing written). When the loop ends
  with a \<open>ValueError\<close> the handler deletes the product, commits, and removes the saved
  files; any other exception leaves the handler, and closing the connection drops what
  the loop has inserted and not committed. The result is \<open>None\<close> when the search for a
  free file name does not end.
\<close>

definition create_product ::
  "env \<Rightarrow> int option \<Rightarrow> form \<Rightarrow> upload list \<Rightarrow> string \<Rightarrow> state \<Rightarrow> (response \<times> state) option" where
  "create_product env session form files_in created_at st =
     (case current_seller_id session of
        None \<Rightarrow> Some (Reply 401 (Error ''login required''), st)
      | Some seller_id \<Rightarrow>
          if seller_id = 0 then Some (Reply 401 (Error ''login required''), st)
          else
            (let name = strip (f_name form); details = strip (f_details form) in
             case f_price form of
               None \<Rightarrow> Some (Reply 400 (Error ''Invalid input''), st)
             | Some price \<Rightarrow>
                 if name = [] \<or> lt_zero price \<or> details = [] then
                   Some (Reply 400 (Error ''Invalid input''), st)
                 else if length files_in > 5 then
                   Some (Reply 400 (Error ''Max 5 images allowed''), st)
                 else
                   (case insert_product name price details created_at seller_id (db st) of
                      Inl e \<Rightarrow> Some (Uncaught e, st)
                    | Inr (product_id, t1) \<Rightarrow>
                       (case save_images env product_id created_at 0 files_in
                              \<lparr>work = t1, disk = files st, rng = drawn st, saved_filenames = []\<rparr> of
                         None \<Rightarrow> None
                       | Some (None, l) \<Rightarrow>
                           (case find (\<lambda>p. p_id p = product_id) (products (work l)) of
                              None \<Rightarrow>
                                Some (Uncaught (TypeError ''NoneType''),
                                      \<lparr>db = work l, files = disk l, drawn = rng l\<rparr>)
                            | Some row \<Rightarrow>
                                Some (Reply 201 (ProductJson
                                        (product_to_dict (work l) row (saved_filenames l))),
                                      \<lparr>db = work l, files = disk l, drawn = rng l\<rparr>))
                       | Some (Some e, l) \<Rightarrow>
                           (case e of
                              ValueError msg \<Rightarrow>
                                Some (Reply 400 (Error msg),
                                      \<lparr>db = delete_product_row product_id (work l),
                                       files = remove_files (saved_filenames l) (disk l),
                                       drawn = rng l\<rparr>)
                            | _ \<Rightarrow>
                                Some (Uncaught e,
                                      \<lparr>db = t1, files = disk l, drawn = rng l\<rparr>))))))"

text \<open>An environment and uploads to run the code on.\<close>

definition magic_pillow :: "string \<Rightarrow> exn + string" where
  "magic_pillow bytes =
     (if take 2 bytes = [CHR 0xFF, CHR 0xD8] then Inr ''JPEG''
      else if take 4 bytes = [CHR 0x89, CHR ''P'', CHR ''N'', CHR ''G''] then Inr ''PNG''
      else if take 3 bytes = ''GIF'' then Inr ''GIF''
      else Inl (OSError ''cannot identify image file''))"

fun example_uuid :: "nat \<Rightarrow> string" where
  "example_uuid 0 = ''0a''"
| "example_uuid (Suc n) = CHR ''1'' # example_uuid n"

definition example_env :: env where
  "example_env =
     \<lparr>pillow = magic_pillow, uuid4_hex = example_uuid,
      generate_password_hash = (\<lambda>pin. ''pbkdf2:'' @ pin),
      check_password_hash = (\<lambda>h pin. h = ''pbkdf2:'' @ pin),
      max_variable_number = 32766\<rparr>"

definition jpeg_upload :: "string \<Rightarrow> upload" where
  "jpeg_upload name =
     \<lparr>u_filename = name, u_content_type = ''image/jpeg'',
      u_content = [CHR 0xFF, CHR 0xD8, CHR 0xFF] @ name\<rparr>"

definition gif_upload :: "string \<Rightarrow> upload" where
  "gif_upload name =
     \<lparr>u_filename = name, u_content_type = ''image/jpeg'', u_content = ''GIF89a'' @ name\<rparr>"

definition text_upload :: "string \<Rightarrow> upload" where
  "text_upload name =
     \<lparr>u_filename = name, u_content_type = ''image/jpeg'', u_content = ''just text''\<rparr>"

definition empty_state :: state where
  "empty_state =
     \<lparr>db = \<lparr>sellers = [], products = [], product_images = [],
            seq_sellers = 0, seq_products = 0, seq_product_images = 0\<rparr>,
      files = Map.empty, drawn = 0\<rparr>"

definition amna :: register_data where
  "amna = \<lparr>d_name = ''Amna'', d_whatsapp = ''+92 300 1234567'', d_pin = ''1234''\<rparr>"


definition one_seller :: state where
  "one_seller =
     snd (snd (sellers_register example_env amna ''2024-01-01T00:00:00Z'' None empty_state))"

definition lamp :: form where
  "lamp = \<lparr>f_name = ''Lamp'', f_details = ''Brass'', f_price = Some (Finite 19.5)\<rparr>"

section \<open>Notions of the specification\<close>

text \<open>A session that \<open>if not seller_id\<close> lets through.\<close>

definition logged_in :: "int option \<Rightarrow> bool" where
  "logged_in session = (case current_seller_id session of None \<Rightarrow> False | Some sid \<Rightarrow> sid \<noteq> 0)"

text \<open>
  Malformed input of \<open>create_product\<close>: no name or no details (a field that is missing
  or empty is the empty string, and so is one of white space once stripped), no price
  or a negative one, or more than five files.
\<close>

definition malformed :: "form \<Rightarrow> upload list \<Rightarrow> bool" where
  "malformed form files_in =
     (strip (f_name form) = [] \<or> strip (f_details form) = []
      \<or> (case f_price form of None \<Rightarrow> True | Some price \<Rightarrow> lt_zero price)
      \<or> length files_in > 5)"


text \<open>
  The positions \<open>enumerate\<close> gives to the files the loop does not skip, and these files.
\<close>

fun positions :: "int \<Rightarrow> upload list \<Rightarrow> int list" where
  "positions i [] = []"
| "positions i (f # rest) =
     (if u_filename f = [] then positions (i + 1) rest else i # positions (i + 1) rest)"

definition kept :: "upload list \<Rightarrow> upload list" where
  "kept files_in = filter (\<lambda>f. u_filename f \<noteq> []) files_in"

text \<open>
  What the engine keeps true of the rows: ids come from the sequence, and an image row
  belongs to a product that exists (the foreign key).
\<close>

definition store_ok :: "tables \<Rightarrow> bool" where
  "store_ok t =
     (list_all (\<lambda>p. p_id p \<le> seq_products t) (products t)
      \<and> list_all (\<lambda>r. i_product_id r \<in> p_id ` set (products t)) (product_images t))"

text \<open>Every product whose \<open>seller_id\<close> is set refers to a seller that exists.\<close>

definition seller_refs_ok :: "tables \<Rightarrow> bool" where
  "seller_refs_ok t =
     list_all (\<lambda>p. case p_seller_id p of None \<Rightarrow> True
                    | Some sid \<Rightarrow> sid \<in> s_id ` set (sellers t)) (products t)"

text \<open>
  The states the requests can reach from the empty store. The session is a cookie the
  application signs; a client can send any cookie the application has ever issued, or
  none. \<open>cookies\<close> holds the seller ids of the cookies issued so far.
\<close>

record world =
  now :: state
  cookies :: "int set"

definition may_send :: "world \<Rightarrow> int option \<Rightarrow> bool" where
  "may_send w session = (case session of None \<Rightarrow> True | Some sid \<Rightarrow> sid \<in> cookies w)"

definition issue :: "int option \<Rightarrow> int set \<Rightarrow> int set" where
  "issue session c = (case session of None \<Rightarrow> c | Some sid \<Rightarrow> insert sid c)"

inductive reachable :: "env \<Rightarrow> world \<Rightarrow> bool" for env :: env where
  start: "reachable env \<lparr>now = empty_state, cookies = {}\<rparr>"
| register:
    "reachable env w \<Longrightarrow> may_send w session \<Longrightarrow>
     sellers_register env data created_at session (now w) = (resp, session', st') \<Longrightarrow>
     reachable env \<lparr>now = st', cookies = issue session' (cookies w)\<rparr>"
| login:
    "reachable env w \<Longrightarrow> may_send w session \<Longrightarrow>
     sellers_login env data session (now w) = (resp, session', st') \<Longrightarrow>
     reachable env \<lparr>now = st', cookies = issue session' (cookies w)\<rparr>"
| create:
    "reachable env w \<Longrightarrow> may_send w session \<Longrightarrow>
     create_product env session form files_in created_at (now w) = Some (resp, st') \<Longrightarrow>
     reachable env \<lparr>now = st', cookies = cookies w\<rparr>"
| delete:
    "reachable env w \<Longrightarrow> may_send w session \<Longrightarrow>
     delete_product session product_id (now w) = (resp, st') \<Longrightarrow>
     reachable env \<lparr>now = st', cookies = cookies w\<rparr>"

text \<open>
  What a run of the loop has done between two loop states: the rows it has appended, and
  the files it has written with their contents, in the order of the writes.
\<close>

definition loop_effect ::
  "int \<Rightarrow> loop_state \<Rightarrow> loop_state \<Rightarrow> (string \<times> string) list \<Rightarrow> product_image list \<Rightarrow> bool" where
  "loop_effect pid l l' ws rows =
     (work l' = (work l)\<lparr>product_images := product_images (work l) @ rows,
                         seq_product_images := seq_product_images (work l) + int (length rows)\<rparr>
      \<and> saved_filenames l' = saved_filenames l @ map fst ws
      \<and> map i_filename rows = map fst ws
      \<and> list_all (\<lambda>x. i_product_id x = pid) rows
      \<and> distinct (map fst ws)
      \<and> list_all (\<lambda>x. disk l (fst x) = None) ws
      \<and> (\<forall>x. disk l' x = (case map_of ws x of None \<Rightarrow> disk l x | Some c \<Rightarrow> Some c)))"

text \<open>The tables after the first \<open>INSERT\<close> of \<open>create_product\<close>, and the id of the new row.\<close>

definition with_product :: "int \<Rightarrow> form \<Rightarrow> pyfloat \<Rightarrow> string \<Rightarrow> tables \<Rightarrow> tables" where
  "with_product seller_id form price created_at t =
     t\<lparr>products := products t @
          [\<lparr>p_id = seq_products t + 1, p_name = strip (f_name form), p_price = price,
            p_details = strip (f_details form), p_created_at = created_at,
            p_seller_id = Some seller_id\<rparr>],
       seq_products := seq_products t + 1\<rparr>"

definition new_product_id :: "tables \<Rightarrow> int" where
  "new_product_id t = seq_products t + 1"

text \<open>A request with three files, the second without a name, and what it leaves.\<close>

definition lamp_files :: "upload list" where
  "lamp_files = [jpeg_upload ''a.jpg'', jpeg_upload '''', jpeg_upload ''c.jpg'']"

definition lamp_view :: product_view where
  "lamp_view =
     \<lparr>v_id = 1, v_name = ''Lamp'', v_price = Finite 19.5, v_details = ''Brass'',
      v_created_at = ''2024-01-02T00:00:00Z'', v_seller_id = Some 1,
      v_seller = Some (1, Some ''Amna'', Some ''+923001234567''),
      v_images = [''/uploads/0a.jpg'', ''/uploads/10a.jpg'']\<rparr>"

definition lamp_state :: state where
  "lamp_state =
     \<lparr>db = \<lparr>sellers = [\<lparr>s_id = 1, s_name = ''Amna'', s_whatsapp = ''+923001234567'',
                         s_pin_hash = ''pbkdf2:1234'', s_created_at = ''2024-01-01T00:00:00Z''\<rparr>],
            products = [\<lparr>p_id = 1, p_name = ''Lamp'', p_price = Finite 19.5, p_details = ''Brass'',
                          p_created_at = ''2024-01-02T00:00:00Z'', p_seller_id = Some 1\<rparr>],
            product_images =
              [\<lparr>i_id = 1, i_product_id = 1, i_filename = ''0a.jpg'', i_sort_order = 0,
                i_created_at = ''2024-01-02T00:00:00Z''\<rparr>,
               \<lparr>i_id = 2, i_product_id = 1, i_filename = ''10a.jpg'', i_sort_order = 2,
                i_created_at = ''2024-01-02T00:00:00Z''\<rparr>],
            seq_sellers = 1, seq_products = 1, seq_product_images = 2\<rparr>,
      files = [''0a.jpg'' \<mapsto> u_content (jpeg_upload ''a.jpg''),
               ''10a.jpg'' \<mapsto> u_content (jpeg_upload ''c.jpg'')],
      drawn = 2\<rparr>"

text \<open>What holds of every world the requests can reach.\<close>

definition world_ok :: "world \<Rightarrow> bool" where
  "world_ok w =
     (seller_refs_ok (db (now w)) \<and> store_ok (db (now w))
      \<and> cookies w \<subseteq> s_id ` set (sellers (db (now w))))"

text \<open>
  Four files of which the third is text, and what the request leaves: the product row,
  and the two files written before the third was opened.
\<close>

definition third_is_text :: "upload list" where
  "third_is_text =
     [jpeg_upload ''a.jpg'', jpeg_upload ''b.jpg'', text_upload ''c.jpg'', jpeg_upload ''d.jpg'']"

definition third_is_gif :: "upload list" where
  "third_is_gif =
     [jpeg_upload ''a.jpg'', jpeg_upload ''b.jpg'', gif_upload ''c.jpg'', jpeg_upload ''d.jpg'']"

definition orphaned_state :: state where
  "orphaned_state =
     \<lparr>db = \<lparr>sellers = [\<lparr>s_id = 1, s_name = ''Amna'', s_whatsapp = ''+923001234567'',
                         s_pin_hash = ''pbkdf2:1234'', s_created_at = ''2024-01-01T00:00:00Z''\<rparr>],
            products = [\<lparr>p_id = 1, p_name = ''Lamp'', p_price = Finite 19.5, p_details = ''Brass'',
                          p_created_at = ''2024-01-02T00:00:00Z'', p_seller_id = Some 1\<rparr>],
            product_images = [],
            seq_sellers = 1, seq_products = 1, seq_product_images = 0\<rparr>,
      files = [''0a.jpg'' \<mapsto> u_content (jpeg_upload ''a.jpg''),
               ''10a.jpg'' \<mapsto> u_content (jpeg_upload ''b.jpg'')],
      drawn = 2\<rparr>"






section \<open>Properties of the phone normalisation\<close>
lemma blank_not_digit: "\<not> isdigit CHR '' ''"
  by (simp add: isdigit_def)

lemma plus_not_digit: "\<not> isdigit CHR ''+''"
  by (simp add: isdigit_def)

lemma isdigit_not_blank: "isdigit c \<Longrightarrow> c \<noteq> CHR '' ''"
  using blank_not_digit by blast

lemma isdigit_not_plus: "isdigit c \<Longrightarrow> c \<noteq> CHR ''+''"
  using plus_not_digit by blast

lemma plus_not_space: "\<not> isspace CHR ''+''"
  by (simp add: isspace_def)
lemma isdigit_not_space: "isdigit c \<Longrightarrow> \<not> isspace c"
  by (auto simp: isdigit_def isspace_def Let_def)

lemma dropWhile_none: "\<forall>c \<in> set s. \<not> P c \<Longrightarrow> dropWhile P s = s"
  by (cases s) simp_all

lemma strip_no_space:
  assumes "\<forall>c \<in> set s. \<not> isspace c"
  shows "strip s = s"
proof -
  have a: "dropWhile isspace s = s"
    using assms by (rule dropWhile_none)
  have "\<forall>c \<in> set (rev s). \<not> isspace c"
    using assms by simp
  then have b: "dropWhile isspace (rev s) = rev s"
    by (rule dropWhile_none)
  show ?thesis by (simp add: strip_def a b)
qed

lemma replace_space_id:
  assumes "\<forall>c \<in> set s. c \<noteq> CHR '' ''"
  shows "replace_space s = s"
  using assms by (simp add: replace_space_def)
lemma filter_all: "\<forall>c \<in> set s. P c \<Longrightarrow> filter P s = s"
  by simp

lemma normalize_canonical_digits:
  assumes "list_all isdigit s"
  shows "normalize_whatsapp s = s"
proof -
  have d: "\<forall>c \<in> set s. isdigit c" using assms by (simp add: list_all_iff)
  have ns: "\<forall>c \<in> set s. \<not> isspace c" using d isdigit_not_space by blast
  have nb: "\<forall>c \<in> set s. c \<noteq> CHR '' ''" using d isdigit_not_blank by blast
  have s1: "replace_space (strip s) = s"
    by (simp only: strip_no_space [OF ns] replace_space_id [OF nb])
  have f: "filter isdigit s = s" using d by (rule filter_all)
  show ?thesis
  proof (cases s)
    case Nil
    then show ?thesis by (simp add: normalize_whatsapp_def strip_def replace_space_def)
  next
    case (Cons c r)
    then have "c \<noteq> CHR ''+''" using d isdigit_not_plus by simp
    then show ?thesis
      unfolding normalize_whatsapp_def s1 Let_def using Cons f by simp
  qed
qed

lemma normalize_canonical_plus:
  assumes "list_all isdigit r"
  shows "normalize_whatsapp (CHR ''+'' # r) = CHR ''+'' # r"
proof -
  have d: "\<forall>c \<in> set r. isdigit c" using assms by (simp add: list_all_iff)
  have ns: "\<forall>c \<in> set (CHR ''+'' # r). \<not> isspace c"
    using d isdigit_not_space plus_not_space by auto
  have nb: "\<forall>c \<in> set (CHR ''+'' # r). c \<noteq> CHR '' ''"
    using d isdigit_not_blank by auto
  have s1: "replace_space (strip (CHR ''+'' # r)) = CHR ''+'' # r"
    by (simp only: strip_no_space [OF ns] replace_space_id [OF nb])
  have f: "filter isdigit r = r" using d by (rule filter_all)
  show ?thesis
    unfolding normalize_whatsapp_def s1 Let_def using f by simp
qed

lemma list_all_filter: "list_all P (filter P xs)"
  by (simp add: list_all_iff)

lemma normalize_shape: "canonical_phone (normalize_whatsapp s)"
proof (cases "replace_space (strip s)")
  case Nil
  then show ?thesis by (simp add: normalize_whatsapp_def canonical_phone_def)
next
  case (Cons c rest)
  show ?thesis
  proof (cases "c = CHR ''+''")
    case True
    with Cons have "normalize_whatsapp s = CHR ''+'' # filter isdigit rest"
      by (simp add: normalize_whatsapp_def)
    then show ?thesis by (simp add: canonical_phone_def list_all_filter)
  next
    case False
    with Cons have "normalize_whatsapp s = filter isdigit (c # rest)"
      by (simp add: normalize_whatsapp_def)
    then show ?thesis by (simp only: canonical_phone_def list_all_filter simp_thms)
  qed
qed

text \<open>
  C10: normalising twice is the same as normalising once, and the result is a string of
  digits or a plus sign followed by digits (digits as \<open>str.isdigit\<close> has them).
\<close>

theorem normalize_whatsapp_idempotent_canonical:
  "normalize_whatsapp (normalize_whatsapp s) = normalize_whatsapp s
   \<and> canonical_phone (normalize_whatsapp s)"
proof -
  have c: "canonical_phone (normalize_whatsapp s)" by (rule normalize_shape)
  have "normalize_whatsapp (normalize_whatsapp s) = normalize_whatsapp s"
  proof (cases "list_all isdigit (normalize_whatsapp s)")
    case True
    then show ?thesis by (rule normalize_canonical_digits)
  next
    case False
    with c obtain r where "normalize_whatsapp s = CHR ''+'' # r" "list_all isdigit r"
      by (auto simp: canonical_phone_def split: list.splits)
    then show ?thesis by (simp add: normalize_canonical_plus)
  qed
  with c show ?thesis by simp
qed

section \<open>Re-running the migrations\<close>

lemma grows_refl: "grows s s"
  by (simp add: grows_def)

lemma grows_trans: "grows a b \<Longrightarrow> grows b c \<Longrightarrow> grows a c"
  unfolding grows_def by blast

lemma inflating_then_do:
  assumes "inflating f" "inflating g"
  shows "inflating (then_do f g)"
  unfolding inflating_def
proof
  fix s
  obtain r s1 where fs: "f s = (r, s1)" by (cases "f s")
  have g1: "grows s s1" using assms(1) fs unfolding inflating_def by (metis snd_conv)
  show "grows s (snd (then_do f g s))"
  proof (cases r)
    case None
    have "grows s1 (snd (g s1))" using assms(2) unfolding inflating_def by blast
    with g1 have "grows s (snd (g s1))" by (rule grows_trans)
    then show ?thesis by (simp add: then_do_def fs None)
  next
    case (Some e)
    then show ?thesis using g1 by (simp add: then_do_def fs)
  qed
qed

lemma keeps_ledger_then_do:
  assumes "keeps_ledger f" "keeps_ledger g"
  shows "keeps_ledger (then_do f g)"
  unfolding keeps_ledger_def
proof
  fix s
  obtain r s1 where fs: "f s = (r, s1)" by (cases "f s")
  have l1: "ledger s1 = ledger s" using assms(1) fs unfolding keeps_ledger_def by (metis snd_conv)
  show "ledger (snd (then_do f g s)) = ledger s"
  proof (cases r)
    case None
    have "ledger (snd (g s1)) = ledger s1" using assms(2) unfolding keeps_ledger_def by blast
    then show ?thesis by (simp add: then_do_def fs None l1)
  next
    case (Some e)
    then show ?thesis by (simp add: then_do_def fs l1)
  qed
qed

lemma rerun_same_then_do:
  assumes f: "rerun_same f" and u: "settled_upward f"
    and g: "rerun_same g" and i: "inflating g"
  shows "rerun_same (then_do f g)"
  unfolding rerun_same_def
proof
  fix s
  obtain r s1 where fs: "f s = (r, s1)" by (cases "f s")
  have again: "f s1 = (r, s1)" using f fs unfolding rerun_same_def by (metis snd_conv)
  show "then_do f g (snd (then_do f g s)) = then_do f g s"
  proof (cases r)
    case (Some e)
    then show ?thesis by (simp add: then_do_def fs again)
  next
    case None
    obtain r2 s2 where gs: "g s1 = (r2, s2)" by (cases "g s1")
    have "grows s1 s2" using i gs unfolding inflating_def by (metis snd_conv)
    with again None have f2: "f s2 = (None, s2)" using u unfolding settled_upward_def by blast
    have g2: "g s2 = (r2, s2)" using g gs unfolding rerun_same_def by (metis snd_conv)
    show ?thesis by (simp add: then_do_def fs None gs f2 g2)
  qed
qed

lemma has_table_append [simp]:
  "has_table t (s\<lparr>tables := tables s @ [(n, cols)]\<rparr>) = (t = n \<or> has_table t s)"
  by (auto simp: has_table_def)

lemma has_table_iff: "has_table t s = (map_of (tables s) t \<noteq> None)"
  by (simp add: has_table_def map_of_eq_None_iff)

lemma table_info_append:
  "has_table t s \<Longrightarrow> table_info t (s\<lparr>tables := tables s @ [(n, cols)]\<rparr>) = table_info t s"
  by (auto simp: table_info_def has_table_iff map_add_def split: option.splits)

lemma table_info_absent: "\<not> has_table t s \<Longrightarrow> table_info t s = []"
  by (simp add: table_info_def has_table_iff)

lemma table_info_new:
  "\<not> has_table n s \<Longrightarrow> table_info n (s\<lparr>tables := tables s @ [(n, cols)]\<rparr>) = cols"
  by (simp add: table_info_def has_table_iff map_add_def)

lemma grows_add_table:
  assumes "\<not> has_table n s"
  shows "grows s (s\<lparr>tables := tables s @ [(n, cols)]\<rparr>)"
proof -
  have "c \<in> set (table_info t (s\<lparr>tables := tables s @ [(n, cols)]\<rparr>))"
    if "c \<in> set (table_info t s)" for t c
  proof (cases "has_table t s")
    case True
    then show ?thesis using that by (simp add: table_info_append)
  next
    case False
    then show ?thesis using that by (simp add: table_info_absent)
  qed
  then show ?thesis by (simp add: grows_def)
qed

lemma tables_append_neq: "s\<lparr>tables := tables s @ [x]\<rparr> \<noteq> s"
proof
  assume "s\<lparr>tables := tables s @ [x]\<rparr> = s"
  then have "tables (s\<lparr>tables := tables s @ [x]\<rparr>) = tables s" by simp
  then show False by simp
qed

subsection \<open>\<open>CREATE TABLE IF NOT EXISTS\<close>\<close>

lemma create_table_inflating: "inflating (create_table_if_not_exists t cols)"
  by (simp add: inflating_def create_table_if_not_exists_def grows_refl grows_add_table)

lemma create_table_keeps_ledger: "keeps_ledger (create_table_if_not_exists t cols)"
  by (simp add: keeps_ledger_def create_table_if_not_exists_def)

lemma create_table_rerun: "rerun_same (create_table_if_not_exists t cols)"
  by (simp add: rerun_same_def create_table_if_not_exists_def)

lemma create_table_settled: "create_table_if_not_exists t cols s = (None, s) \<Longrightarrow> has_table t s"
  by (simp add: create_table_if_not_exists_def tables_append_neq split: if_splits)

lemma create_table_success:
  "create_table_if_not_exists t cols s = (None, s1) \<Longrightarrow> has_table t s1"
  by (auto simp: create_table_if_not_exists_def split: if_splits)

lemma create_table_settled_upward: "settled_upward (create_table_if_not_exists t cols)"
  unfolding settled_upward_def
proof (intro allI impI)
  fix s s'
  assume a: "create_table_if_not_exists t cols s = (None, s)" and g: "grows s s'"
  from a have "has_table t s" by (rule create_table_settled)
  with g have "has_table t s'" by (simp add: grows_def)
  then show "create_table_if_not_exists t cols s' = (None, s')"
    by (simp add: create_table_if_not_exists_def)
qed

subsection \<open>\<open>CREATE INDEX IF NOT EXISTS\<close>\<close>

lemma has_table_indexes [simp]: "has_table t (s\<lparr>indexes := ix\<rparr>) = has_table t s"
  by (simp add: has_table_def)

lemma table_info_indexes [simp]: "table_info t (s\<lparr>indexes := ix\<rparr>) = table_info t s"
  by (simp add: table_info_def)

lemma has_index_append [simp]:
  "has_index i (s\<lparr>indexes := indexes s @ [(n, d)]\<rparr>) = (i = n \<or> has_index i s)"
  by (auto simp: has_index_def)

lemma grows_indexes: "grows s (s\<lparr>indexes := ix\<rparr>)"
  by (simp add: grows_def)

lemma create_index_inflating: "inflating (create_index_if_not_exists n u t cols)"
  by (simp add: inflating_def create_index_if_not_exists_def grows_refl grows_indexes)

lemma create_index_keeps_ledger: "keeps_ledger (create_index_if_not_exists n u t cols)"
  by (simp add: keeps_ledger_def create_index_if_not_exists_def)

lemma create_index_rerun: "rerun_same (create_index_if_not_exists n u t cols)"
  by (simp add: rerun_same_def create_index_if_not_exists_def)

subsection \<open>\<open>ALTER TABLE ADD COLUMN\<close>\<close>

lemma map_of_add_column:
  "map_of (map (\<lambda>(n, cols). if n = t then (n, cols @ [c]) else (n, cols)) xs) t' =
     (case map_of xs t' of None \<Rightarrow> None
      | Some cols \<Rightarrow> Some (if t' = t then cols @ [c] else cols))"
  by (induction xs) auto

lemma has_table_add_column [simp]:
  "has_table t' (s\<lparr>tables := map (\<lambda>(n, cols). if n = t then (n, cols @ [c]) else (n, cols)) (tables s)\<rparr>)
     = has_table t' s"
  by (simp add: has_table_iff map_of_add_column split: option.splits)

lemma table_info_add_column:
  "table_info t' (s\<lparr>tables := map (\<lambda>(n, cols). if n = t then (n, cols @ [c]) else (n, cols)) (tables s)\<rparr>)
     = (if t' = t \<and> has_table t s then table_info t s @ [c] else table_info t' s)"
  by (simp add: table_info_def has_table_iff map_of_add_column split: option.splits)

lemma grows_add_column:
  "grows s (s\<lparr>tables := map (\<lambda>(n, cols). if n = t then (n, cols @ [c]) else (n, cols)) (tables s)\<rparr>)"
  by (simp add: grows_def table_info_add_column)

lemma add_seller_id_inflating: "inflating add_seller_id_if_absent"
  by (simp add: inflating_def add_seller_id_if_absent_def alter_table_add_column_def
      grows_refl grows_add_column)

lemma add_seller_id_keeps_ledger: "keeps_ledger add_seller_id_if_absent"
  by (simp add: keeps_ledger_def add_seller_id_if_absent_def alter_table_add_column_def)

lemma add_seller_id_rerun: "rerun_same add_seller_id_if_absent"
  by (simp add: rerun_same_def add_seller_id_if_absent_def alter_table_add_column_def
      table_info_add_column)

lemma add_seller_id_settled:
  assumes "add_seller_id_if_absent s = (None, s)"
  shows "''seller_id'' \<in> set (table_info ''products'' s)"
proof (rule ccontr)
  assume n: "''seller_id'' \<notin> set (table_info ''products'' s)"
  with assms have h: "has_table ''products'' s"
    and e: "s\<lparr>tables := map (\<lambda>(n, cols). if n = ''products'' then (n, cols @ [''seller_id''])
                 else (n, cols)) (tables s)\<rparr> = s"
    by (simp_all add: add_seller_id_if_absent_def alter_table_add_column_def split: if_splits)
  from e have "table_info ''products'' (s\<lparr>tables := map (\<lambda>(n, cols). if n = ''products''
       then (n, cols @ [''seller_id'']) else (n, cols)) (tables s)\<rparr>) = table_info ''products'' s"
    by simp
  with h show False by (simp add: table_info_add_column)
qed

lemma add_seller_id_settled_upward: "settled_upward add_seller_id_if_absent"
  unfolding settled_upward_def
proof (intro allI impI)
  fix s s'
  assume a: "add_seller_id_if_absent s = (None, s)" and g: "grows s s'"
  from a have "''seller_id'' \<in> set (table_info ''products'' s)" by (rule add_seller_id_settled)
  with g have "''seller_id'' \<in> set (table_info ''products'' s')" by (simp add: grows_def)
  then show "add_seller_id_if_absent s' = (None, s')"
    by (simp add: add_seller_id_if_absent_def)
qed

subsection \<open>The four migrations and the ledger\<close>

lemma migration_v1_facts:
  "rerun_same migration_v1" "inflating migration_v1" "keeps_ledger migration_v1"
  unfolding migration_v1_def
  by (rule create_table_rerun create_table_inflating create_table_keeps_ledger)+

lemma migration_v2_facts:
  "rerun_same migration_v2" "inflating migration_v2" "keeps_ledger migration_v2"
  unfolding migration_v2_def
  by (intro rerun_same_then_do inflating_then_do keeps_ledger_then_do
      create_table_rerun create_table_settled_upward create_table_inflating
      create_table_keeps_ledger create_index_rerun create_index_inflating
      create_index_keeps_ledger)+

lemma migration_v3_facts:
  "rerun_same migration_v3" "inflating migration_v3" "keeps_ledger migration_v3"
  unfolding migration_v3_def
  by (intro rerun_same_then_do inflating_then_do keeps_ledger_then_do
      add_seller_id_rerun add_seller_id_settled_upward add_seller_id_inflating
      add_seller_id_keeps_ledger create_index_rerun create_index_inflating
      create_index_keeps_ledger)+

lemma migration_v4_facts:
  "rerun_same migration_v4" "inflating migration_v4" "keeps_ledger migration_v4"
  unfolding migration_v4_def
  by (intro rerun_same_then_do inflating_then_do keeps_ledger_then_do
      create_table_rerun create_table_settled_upward create_table_inflating
      create_table_keeps_ledger create_index_rerun create_index_inflating
      create_index_keeps_ledger)+

lemma has_table_ledger [simp]: "has_table t (s\<lparr>ledger := l\<rparr>) = has_table t s"
  by (simp add: has_table_def)

lemma table_info_ledger [simp]: "table_info t (s\<lparr>ledger := l\<rparr>) = table_info t s"
  by (simp add: table_info_def)

lemma insert_version_inflating: "inflating (insert_version v)"
  by (auto simp: inflating_def insert_version_def grows_def)

lemma apply_migration_inflating:
  assumes "inflating fn"
  shows "inflating (apply_migration v fn)"
proof -
  have t: "inflating (then_do fn (insert_version v))"
    using assms insert_version_inflating by (rule inflating_then_do)
  show ?thesis
    unfolding inflating_def
  proof
    fix s
    have "grows s (snd (then_do fn (insert_version v) s))"
      using t unfolding inflating_def by blast
    then show "grows s (snd (apply_migration v fn s))"
      by (simp add: apply_migration_def applied_versions_def grows_refl)
  qed
qed

text \<open>A step is skipped exactly when the ledger table holds its version.\<close>

lemma apply_migration_skip:
  "has_table ''schema_migrations'' s \<Longrightarrow> v \<in> set (ledger s) \<Longrightarrow> apply_migration v fn s = (None, s)"
  by (simp add: apply_migration_def applied_versions_def)

lemma ledger_append_neq: "s\<lparr>ledger := ledger s @ [v]\<rparr> \<noteq> s"
proof
  assume "s\<lparr>ledger := ledger s @ [v]\<rparr> = s"
  then have "ledger (s\<lparr>ledger := ledger s @ [v]\<rparr>) = ledger s" by simp
  then show False by simp
qed

lemma apply_migration_run:
  assumes k: "keeps_ledger fn" and i: "inflating fn"
    and t: "has_table ''schema_migrations'' s" and v: "v \<notin> set (ledger s)"
  shows "apply_migration v fn s =
           (case fn s of
              (Some e, s1) \<Rightarrow> (Some e, s1)
            | (None, s1) \<Rightarrow> (None, s1\<lparr>ledger := ledger s @ [v]\<rparr>))"
proof -
  obtain r s1 where fs: "fn s = (r, s1)" by (cases "fn s")
  have l: "ledger s1 = ledger s" using k fs unfolding keeps_ledger_def by (metis snd_conv)
  have "grows s s1" using i fs unfolding inflating_def by (metis snd_conv)
  with t have t1: "has_table ''schema_migrations'' s1" by (simp add: grows_def)
  show ?thesis
    using t v t1 l
    by (cases r) (simp_all add: apply_migration_def applied_versions_def then_do_def fs
        insert_version_def)
qed

lemma apply_migration_no_table:
  "\<not> has_table ''schema_migrations'' s \<Longrightarrow>
     apply_migration v fn s = (Some (OperationalError ''no such table''), s)"
  by (simp add: apply_migration_def applied_versions_def)

lemma apply_migration_rerun:
  assumes r: "rerun_same fn" and k: "keeps_ledger fn" and i: "inflating fn"
  shows "rerun_same (apply_migration v fn)"
  unfolding rerun_same_def
proof
  fix s
  show "apply_migration v fn (snd (apply_migration v fn s)) = apply_migration v fn s"
  proof (cases "has_table ''schema_migrations'' s \<and> v \<notin> set (ledger s)")
    case False
    show ?thesis
    proof (cases "has_table ''schema_migrations'' s")
      case True
      with False have "apply_migration v fn s = (None, s)"
        by (simp add: apply_migration_skip)
      then show ?thesis by simp
    next
      case False
      then show ?thesis by (simp add: apply_migration_no_table)
    qed
  next
    case True
    then have t: "has_table ''schema_migrations'' s" and v: "v \<notin> set (ledger s)" by simp_all
    obtain x s1 where fs: "fn s = (x, s1)" by (cases "fn s")
    have l: "ledger s1 = ledger s" using k fs unfolding keeps_ledger_def by (metis snd_conv)
    have "grows s s1" using i fs unfolding inflating_def by (metis snd_conv)
    with t have t1: "has_table ''schema_migrations'' s1" by (simp add: grows_def)
    have again: "fn s1 = (x, s1)" using r fs unfolding rerun_same_def by (metis snd_conv)
    show ?thesis
    proof (cases x)
      case None
      have a: "apply_migration v fn s = (None, s1\<lparr>ledger := ledger s @ [v]\<rparr>)"
        by (simp add: apply_migration_run [OF k i t v] fs None)
      have "apply_migration v fn (s1\<lparr>ledger := ledger s @ [v]\<rparr>) = (None, s1\<lparr>ledger := ledger s @ [v]\<rparr>)"
        using t1 by (intro apply_migration_skip) simp_all
      with a show ?thesis by simp
    next
      case (Some e)
      have a: "apply_migration v fn s = (Some e, s1)"
        by (simp add: apply_migration_run [OF k i t v] fs Some)
      have "v \<notin> set (ledger s1)" using v l by simp
      then have "apply_migration v fn s1 = (Some e, s1)"
        by (simp add: apply_migration_run [OF k i t1] again Some)
      with a show ?thesis by simp
    qed
  qed
qed

lemma apply_migration_settled:
  assumes k: "keeps_ledger fn" and i: "inflating fn"
    and a: "apply_migration v fn s = (None, s)"
  shows "has_table ''schema_migrations'' s \<and> v \<in> set (ledger s)"
proof (rule ccontr)
  assume n: "\<not> (has_table ''schema_migrations'' s \<and> v \<in> set (ledger s))"
  show False
  proof (cases "has_table ''schema_migrations'' s")
    case False
    with a show False by (simp add: apply_migration_no_table)
  next
    case True
    with n have v: "v \<notin> set (ledger s)" by simp
    obtain x s1 where fs: "fn s = (x, s1)" by (cases "fn s")
    have l: "ledger s1 = ledger s" using k fs unfolding keeps_ledger_def by (metis snd_conv)
    from a have "x = None \<and> s1\<lparr>ledger := ledger s @ [v]\<rparr> = s"
      by (cases x) (simp_all add: apply_migration_run [OF k i True v] fs)
    then have "ledger (s1\<lparr>ledger := ledger s @ [v]\<rparr>) = ledger s" by simp
    then show False by simp
  qed
qed

lemma apply_migration_settled_upward:
  assumes k: "keeps_ledger fn" and i: "inflating fn"
  shows "settled_upward (apply_migration v fn)"
  unfolding settled_upward_def
proof (intro allI impI)
  fix s s'
  assume a: "apply_migration v fn s = (None, s)" and g: "grows s s'"
  from k i a have "has_table ''schema_migrations'' s \<and> v \<in> set (ledger s)"
    by (rule apply_migration_settled)
  with g have "has_table ''schema_migrations'' s'" "v \<in> set (ledger s')"
    by (auto simp: grows_def)
  then show "apply_migration v fn s' = (None, s')" by (rule apply_migration_skip)
qed

subsection \<open>\<open>init_db\<close> run again\<close>

lemma makedirs_facts:
  "rerun_same makedirs_upload_dir" "settled_upward makedirs_upload_dir"
  "inflating makedirs_upload_dir"
proof -
  show "rerun_same makedirs_upload_dir"
    by (simp add: rerun_same_def makedirs_upload_dir_def)
  show "inflating makedirs_upload_dir"
    by (simp add: inflating_def makedirs_upload_dir_def grows_def has_table_def table_info_def)
  show "settled_upward makedirs_upload_dir"
    unfolding settled_upward_def
  proof (intro allI impI)
    fix s s'
    assume a: "makedirs_upload_dir s = (None, s)" and g: "grows s s'"
    from a have "upload_dir (s\<lparr>upload_dir := True\<rparr>) = upload_dir s"
      by (simp add: makedirs_upload_dir_def)
    then have "upload_dir s" by simp
    with g have "upload_dir s'" by (simp add: grows_def)
    then show "makedirs_upload_dir s' = (None, s')"
      by (simp add: makedirs_upload_dir_def)
  qed
qed

lemmas apply_facts =
  apply_migration_rerun apply_migration_settled_upward apply_migration_inflating

lemma init_db_rerun: "rerun_same init_db"
  unfolding init_db_def
  by (intro rerun_same_then_do inflating_then_do makedirs_facts apply_facts
      create_table_rerun create_table_settled_upward create_table_inflating
      migration_v1_facts migration_v2_facts migration_v3_facts migration_v4_facts)

subsection \<open>The order in which versions are recorded\<close>

lemma apply_all_ledger:
  assumes "\<forall>x \<in> set steps. keeps_ledger (snd x) \<and> inflating (snd x)"
    and "distinct (map fst steps)"
    and "has_table ''schema_migrations'' s"
  shows "\<exists>k \<le> length steps.
           ledger (snd (apply_all steps s)) =
             ledger s @ filter (\<lambda>v. v \<notin> set (ledger s)) (map fst (take k steps))
           \<and> (fst (apply_all steps s) = None \<longrightarrow> k = length steps)"
  using assms
proof (induction steps arbitrary: s)
  case Nil
  then show ?case by simp
next
  case (Cons x rest)
  obtain v fn where x: "x = (v, fn)" by (cases x)
  have k: "keeps_ledger fn" and i: "inflating fn" using Cons.prems(1) x by simp_all
  have rest_ok: "\<forall>x \<in> set rest. keeps_ledger (snd x) \<and> inflating (snd x)"
    using Cons.prems(1) by simp
  have d: "distinct (map fst rest)" and vr: "v \<notin> set (map fst rest)"
    using Cons.prems(2) x by simp_all
  have t: "has_table ''schema_migrations'' s" by (rule Cons.prems(3))
  have unfold: "apply_all (x # rest) s = then_do (apply_migration v fn) (apply_all rest) s"
    by (simp add: x)
  show ?case
  proof (cases "v \<in> set (ledger s)")
    case True
    have a: "apply_migration v fn s = (None, s)" using t True by (rule apply_migration_skip)
    from Cons.IH [OF rest_ok d t] obtain k' where kk: "k' \<le> length rest \<and>
         ledger (snd (apply_all rest s)) =
           ledger s @ filter (\<lambda>v. v \<notin> set (ledger s)) (map fst (take k' rest)) \<and>
         (fst (apply_all rest s) = None \<longrightarrow> k' = length rest)" ..
    note k1 = kk [THEN conjunct1] and k2 = kk [THEN conjunct2, THEN conjunct1]
      and k3 = kk [THEN conjunct2, THEN conjunct2]
    have e: "apply_all (x # rest) s = apply_all rest s"
      by (simp only: unfold then_do_def a prod.case option.case)
    show ?thesis
    proof (intro exI [of _ "Suc k'"] conjI)
      show "Suc k' \<le> length (x # rest)" using k1 by simp
      show "ledger (snd (apply_all (x # rest) s)) =
          ledger s @ filter (\<lambda>v. v \<notin> set (ledger s)) (map fst (take (Suc k') (x # rest)))"
        unfolding e k2 using True by (simp add: x)
      show "fst (apply_all (x # rest) s) = None \<longrightarrow> Suc k' = length (x # rest)"
        unfolding e using k3 by simp
    qed
  next
    case False
    obtain r s1 where fs: "fn s = (r, s1)" by (cases "fn s")
    have "ledger (snd (fn s)) = ledger s" using k unfolding keeps_ledger_def by blast
    then have l: "ledger s1 = ledger s" by (simp add: fs)
    have "grows s (snd (fn s))" using i unfolding inflating_def by blast
    then have "grows s s1" by (simp add: fs)
    with t have t1: "has_table ''schema_migrations'' s1" by (simp add: grows_def)
    show ?thesis
    proof (cases r)
      case (Some e)
      have e: "apply_all (x # rest) s = (Some e, s1)"
        unfolding unfold by (simp add: then_do_def apply_migration_run [OF k i t False] fs Some)
      show ?thesis
      proof (intro exI [of _ 0] conjI)
        show "ledger (snd (apply_all (x # rest) s)) =
          ledger s @ filter (\<lambda>v. v \<notin> set (ledger s)) (map fst (take 0 (x # rest)))"
          unfolding e using l by simp
        show "fst (apply_all (x # rest) s) = None \<longrightarrow> 0 = length (x # rest)"
          unfolding e by simp
      qed simp
    next
      case None
      define s2 where "s2 = s1\<lparr>ledger := ledger s @ [v]\<rparr>"
      have e: "apply_all (x # rest) s = apply_all rest s2"
        unfolding unfold s2_def
        by (simp add: then_do_def apply_migration_run [OF k i t False] fs None)
      have t2: "has_table ''schema_migrations'' s2" using t1 by (simp add: s2_def)
      have l2: "ledger s2 = ledger s @ [v]" by (simp add: s2_def)
      from Cons.IH [OF rest_ok d t2] obtain k' where kk: "k' \<le> length rest \<and>
           ledger (snd (apply_all rest s2)) =
             ledger s2 @ filter (\<lambda>w. w \<notin> set (ledger s2)) (map fst (take k' rest)) \<and>
           (fst (apply_all rest s2) = None \<longrightarrow> k' = length rest)" ..
      note k1 = kk [THEN conjunct1] and k2 = kk [THEN conjunct2, THEN conjunct1]
        and k3 = kk [THEN conjunct2, THEN conjunct2]
      have "set (map fst (take k' rest)) \<subseteq> set (map fst rest)"
        by (simp add: image_mono set_take_subset)
      with vr have nv: "v \<notin> set (map fst (take k' rest))" by blast
      have f: "filter (\<lambda>w. w \<notin> set (ledger s2)) (map fst (take k' rest)) =
                 filter (\<lambda>w. w \<notin> set (ledger s)) (map fst (take k' rest))"
      proof (rule filter_cong [OF refl])
        fix w assume "w \<in> set (map fst (take k' rest))"
        with nv have "w \<noteq> v" by blast
        then show "(w \<notin> set (ledger s2)) = (w \<notin> set (ledger s))" by (simp add: l2)
      qed
      from k2 have k2a: "ledger (snd (apply_all rest s2)) =
           ledger s2 @ filter (\<lambda>w. w \<notin> set (ledger s)) (map fst (take k' rest))"
        by (simp only: f)
      then have k2b: "ledger (snd (apply_all rest s2)) =
           (ledger s @ [v]) @ filter (\<lambda>w. w \<notin> set (ledger s)) (map fst (take k' rest))"
        by (simp only: l2)
      show ?thesis
      proof (intro exI [of _ "Suc k'"] conjI)
        show "Suc k' \<le> length (x # rest)" using k1 by simp
        show "ledger (snd (apply_all (x # rest) s)) =
            ledger s @ filter (\<lambda>v. v \<notin> set (ledger s)) (map fst (take (Suc k') (x # rest)))"
          unfolding e k2b using False by (simp add: x)
        show "fst (apply_all (x # rest) s) = None \<longrightarrow> Suc k' = length (x # rest)"
          unfolding e using k3 by simp
      qed
    qed
  qed
qed

lemma apply_all_Cons: "apply_all ((v, fn) # rest) = then_do (apply_migration v fn) (apply_all rest)"
  by (rule ext) simp

lemma then_do_apply_all_Nil: "then_do f (apply_all []) = f"
proof
  fix s
  obtain r s1 where "f s = (r, s1)" by (cases "f s")
  then show "then_do f (apply_all []) s = f s"
    by (cases r) (simp_all add: then_do_def)
qed

lemma init_db_apply_all:
  "init_db =
     then_do makedirs_upload_dir
    (then_do (create_table_if_not_exists ''schema_migrations'' [''version''])
             (apply_all steps_in_code))"
  by (simp only: steps_in_code_def apply_all_Cons then_do_apply_all_Nil init_db_def)

lemma init_db_ledger:
  "\<exists>k \<le> 4. ledger (snd (init_db s)) =
             ledger s @ filter (\<lambda>v. v \<notin> set (ledger s)) (take k [1, 2, 3, 4])
           \<and> (fst (init_db s) = None \<longrightarrow> k = 4)"
proof -
  let ?s0 = "s\<lparr>upload_dir := True\<rparr>"
  obtain r s1 where c: "create_table_if_not_exists ''schema_migrations'' [''version''] ?s0 = (r, s1)"
    by (cases "create_table_if_not_exists ''schema_migrations'' [''version''] ?s0")
  have "ledger (snd (create_table_if_not_exists ''schema_migrations'' [''version''] ?s0)) = ledger ?s0"
    using create_table_keeps_ledger unfolding keeps_ledger_def by blast
  then have l1: "ledger s1 = ledger s" by (simp add: c)
  show ?thesis
  proof (cases r)
    case (Some e)
    then have "init_db s = (Some e, s1)"
      by (simp add: init_db_apply_all then_do_def makedirs_upload_dir_def c)
    then show ?thesis using l1 by (intro exI [of _ 0]) simp
  next
    case None
    then have i: "init_db s = apply_all steps_in_code s1"
      by (simp add: init_db_apply_all then_do_def makedirs_upload_dir_def c)
    have t1: "has_table ''schema_migrations'' s1"
      using c None by (simp add: create_table_success)
    have ok: "\<forall>x \<in> set steps_in_code. keeps_ledger (snd x) \<and> inflating (snd x)"
      by (simp add: steps_in_code_def migration_v1_facts migration_v2_facts
          migration_v3_facts migration_v4_facts)
    have d: "distinct (map fst steps_in_code)" by (simp add: steps_in_code_def)
    from apply_all_ledger [OF ok d t1] obtain k where kk: "k \<le> length steps_in_code \<and>
      ledger (snd (apply_all steps_in_code s1)) =
         ledger s1 @ filter (\<lambda>v. v \<notin> set (ledger s1)) (map fst (take k steps_in_code)) \<and>
      (fst (apply_all steps_in_code s1) = None \<longrightarrow> k = length steps_in_code)" ..
    note k = kk [THEN conjunct1] kk [THEN conjunct2, THEN conjunct1]
      kk [THEN conjunct2, THEN conjunct2]
    have "map fst steps_in_code = [1, 2, 3, 4]" by (simp add: steps_in_code_def)
    moreover have "map fst (take k steps_in_code) = take k (map fst steps_in_code)"
      by (rule take_map [symmetric])
    ultimately have m: "map fst (take k steps_in_code) = take k [1, 2, 3, 4]"
      by (simp only:)
    have n: "length steps_in_code = 4" by (simp add: steps_in_code_def)
    show ?thesis
    proof (intro exI [of _ k] conjI)
      show "k \<le> 4" using k(1) n by simp
      show "ledger (snd (init_db s)) =
              ledger s @ filter (\<lambda>v. v \<notin> set (ledger s)) (take k [1, 2, 3, 4])"
        using k(2) by (simp only: i l1 m)
      show "fst (init_db s) = None \<longrightarrow> k = 4"
        using k(3) by (simp only: i n)
    qed
  qed
qed

lemma init_db_fresh: "init_db fresh = (None, migrated)"
  by (simp add: init_db_def then_do_def makedirs_upload_dir_def fresh_def migrated_def
      create_table_if_not_exists_def create_index_if_not_exists_def apply_migration_def
      applied_versions_def insert_version_def migration_v1_def migration_v2_def
      migration_v3_def migration_v4_def add_seller_id_if_absent_def alter_table_add_column_def
      has_table_def has_index_def table_info_def)

text \<open>
  C3: a second run of \<open>init_db\<close>, from the state any run has left (a failed one too),
  returns what the first run returned and changes nothing; the ledger, which holds no
  version twice before a run, holds none twice after it.
\<close>

theorem init_db_idempotent:
  "init_db (snd (init_db s)) = init_db s
   \<and> (distinct (ledger s) \<longrightarrow> distinct (ledger (snd (init_db s))))"
proof
  show "init_db (snd (init_db s)) = init_db s"
    using init_db_rerun unfolding rerun_same_def by blast
  show "distinct (ledger s) \<longrightarrow> distinct (ledger (snd (init_db s)))"
  proof
    assume d: "distinct (ledger s)"
    from init_db_ledger [of s] obtain k where kk: "k \<le> 4 \<and>
        ledger (snd (init_db s)) =
          ledger s @ filter (\<lambda>v. v \<notin> set (ledger s)) (take k [1, 2, 3, 4]) \<and>
        (fst (init_db s) = None \<longrightarrow> k = 4)" ..
    have "distinct (take k [1, 2, 3, 4 :: int])" by (rule distinct_take) simp
    then have "distinct (filter (\<lambda>v. v \<notin> set (ledger s)) (take k [1, 2, 3, 4]))"
      by (rule distinct_filter)
    with d have "distinct (ledger s @ filter (\<lambda>v. v \<notin> set (ledger s)) (take k [1, 2, 3, 4]))"
      by auto
    then show "distinct (ledger (snd (init_db s)))"
      by (simp only: kk [THEN conjunct2, THEN conjunct1])
  qed
qed

theorem init_db_idempotent_witness:
  "distinct (ledger fresh)
   \<and> init_db fresh = (None, migrated)
   \<and> init_db (snd (init_db fresh)) = init_db fresh
   \<and> distinct (ledger (snd (init_db fresh)))"
  using init_db_idempotent [of fresh] by (simp add: init_db_fresh) (simp add: fresh_def)

subsection \<open>The steps one after the other\<close>
























section \<open>Image intake: free names and rejected content\<close>

lemma while_exists_free:
  "d filename = None \<Longrightarrow> while_exists env ext d filename n = Some (filename, n)"
  by (subst while_exists.simps) simp

lemma while_exists_taken:
  "d filename \<noteq> None \<Longrightarrow>
     while_exists env ext d filename n = while_exists env ext d (uuid4_hex env n @ ext) (Suc n)"
  by (subst while_exists.simps) simp

lemma while_exists_Some:
  assumes "while_exists env ext d filename n = Some r"
  shows "d (fst r) = None \<and> n \<le> snd r
         \<and> (if snd r = n then fst r = filename
            else fst r = uuid4_hex env (snd r - 1) @ ext \<and> d filename \<noteq> None
                 \<and> (\<forall>j. n \<le> j \<and> j < snd r - 1 \<longrightarrow> d (uuid4_hex env j @ ext) \<noteq> None))"
proof (rule while_exists.raw_induct [where P = "\<lambda>env ext d filename n r.
         d (fst r) = None \<and> n \<le> snd r
         \<and> (if snd r = n then fst r = filename
            else fst r = uuid4_hex env (snd r - 1) @ ext \<and> d filename \<noteq> None
                 \<and> (\<forall>j. n \<le> j \<and> j < snd r - 1 \<longrightarrow> d (uuid4_hex env j @ ext) \<noteq> None))",
       OF _ assms])
  fix loop env ext d filename n r
  assume step: "\<And>env ext d filename n r. loop env ext d filename n = Some r \<Longrightarrow>
         d (fst r) = None \<and> n \<le> snd r
         \<and> (if snd r = n then fst r = filename
            else fst r = uuid4_hex env (snd r - 1) @ ext \<and> d filename \<noteq> None
                 \<and> (\<forall>j. n \<le> j \<and> j < snd r - 1 \<longrightarrow> d (uuid4_hex env j @ ext) \<noteq> None))"
    and body: "(if d filename \<noteq> None then loop env ext d (uuid4_hex env n @ ext) (Suc n)
                else Some (filename, n)) = Some r"
  show "d (fst r) = None \<and> n \<le> snd r
         \<and> (if snd r = n then fst r = filename
            else fst r = uuid4_hex env (snd r - 1) @ ext \<and> d filename \<noteq> None
                 \<and> (\<forall>j. n \<le> j \<and> j < snd r - 1 \<longrightarrow> d (uuid4_hex env j @ ext) \<noteq> None))"
  proof (cases "d filename = None")
    case True
    with body have "r = (filename, n)" by simp
    with True show ?thesis by simp
  next
    case False
    with body have call: "loop env ext d (uuid4_hex env n @ ext) (Suc n) = Some r" by simp
    note ih = step [OF call]
    from ih have free: "d (fst r) = None" and le: "Suc n \<le> snd r" by simp_all
    have name: "fst r = uuid4_hex env (snd r - 1) @ ext"
    proof (cases "snd r = Suc n")
      case True
      with ih show ?thesis by simp
    next
      case False
      with ih show ?thesis by simp
    qed
    have before: "d (uuid4_hex env j @ ext) \<noteq> None" if j: "n \<le> j" "j < snd r - 1" for j
    proof (cases "snd r = Suc n")
      case True
      with j show ?thesis by simp
    next
      case far: False
      show ?thesis
      proof (cases "j = n")
        case True
        with ih far show ?thesis by simp
      next
        case False
        with j have "Suc n \<le> j" by simp
        with ih far j(2) show ?thesis by simp
      qed
    qed
    from le have "snd r \<noteq> n" by simp
    with free le name before False show ?thesis by simp
  qed
qed

text \<open>The loop ends as soon as one of the names still to come is free.\<close>

lemma while_exists_returns:
  "d (uuid4_hex env (n + k) @ ext) = None \<Longrightarrow> \<exists>r. while_exists env ext d filename n = Some r"
proof (induction k arbitrary: filename n)
  case 0
  show ?case
  proof (cases "d filename = None")
    case True
    then show ?thesis by (simp add: while_exists_free)
  next
    case False
    with 0 show ?thesis by (simp add: while_exists_taken while_exists_free)
  qed
next
  case (Suc k)
  show ?case
  proof (cases "d filename = None")
    case True
    then show ?thesis by (simp add: while_exists_free)
  next
    case False
    from Suc.prems have "d (uuid4_hex env (Suc n + k) @ ext) = None" by simp
    then have "\<exists>r. while_exists env ext d (uuid4_hex env n @ ext) (Suc n) = Some r"
      by (rule Suc.IH)
    with False show ?thesis by (simp add: while_exists_taken)
  qed
qed

lemma save_upload_image_Inr:
  assumes "save_upload_image env f st = Some (Inr filename, st')"
  shows "\<exists>ext. sniff_and_get_ext env f = Inr ext \<and> ext \<in> ALLOWED_IMAGE_EXTS
           \<and> while_exists env ext (fst st) (uuid4_hex env (snd st) @ ext) (Suc (snd st))
                = Some (filename, snd st')
           \<and> fst st' = (fst st)(filename \<mapsto> u_content f)"
  using assms
  by (auto simp: save_upload_image_def split: sum.splits if_splits option.splits prod.splits)

lemma save_upload_image_Inl:
  assumes "save_upload_image env f st = Some (Inl e, st')"
  shows "st' = st"
  using assms
  by (auto simp: save_upload_image_def split: sum.splits if_splits option.splits prod.splits)

lemma save_upload_image_stored:
  assumes "save_upload_image env f (d, n) = Some (Inr filename, (d', n'))"
  shows "d filename = None \<and> d' = d(filename \<mapsto> u_content f)"
proof -
  from save_upload_image_Inr [OF assms] obtain ext where
    loop: "while_exists env ext d (uuid4_hex env n @ ext) (Suc n) = Some (filename, n')"
    and d': "d' = d(filename \<mapsto> u_content f)" by auto
  from while_exists_Some [OF loop] have "d filename = None" by simp
  with d' show ?thesis by simp
qed

text \<open>
  C9: the name \<open>save_upload_image\<close> returns named no file of the directory when the
  file was written. It is the first of the drawn names that was free: every name drawn
  before it in this call was taken. The write adds this one file and changes no other.
\<close>

theorem save_upload_image_fresh_name:
  assumes "save_upload_image env f (d, n) = Some (Inr filename, (d', n'))"
  shows "d filename = None
         \<and> d' = d(filename \<mapsto> u_content f)
         \<and> (\<exists>ext k. n \<le> k \<and> n' = Suc k \<and> filename = uuid4_hex env k @ ext
               \<and> (\<forall>j. n \<le> j \<and> j < k \<longrightarrow> d (uuid4_hex env j @ ext) \<noteq> None))"
proof -
  from save_upload_image_Inr [OF assms] obtain ext where
    loop: "while_exists env ext d (uuid4_hex env n @ ext) (Suc n) = Some (filename, n')"
    and d': "d' = d(filename \<mapsto> u_content f)" by auto
  note r = while_exists_Some [OF loop]
  from r have free: "d filename = None" and le: "Suc n \<le> n'" by simp_all
  have name: "filename = uuid4_hex env (n' - 1) @ ext"
  proof (cases "n' = Suc n")
    case True
    with r show ?thesis by simp
  next
    case False
    with r show ?thesis by simp
  qed
  have before: "d (uuid4_hex env j @ ext) \<noteq> None" if j: "n \<le> j" "j < n' - 1" for j
  proof (cases "n' = Suc n")
    case True
    with j show ?thesis by simp
  next
    case far: False
    show ?thesis
    proof (cases "j = n")
      case True
      with r far show ?thesis by simp
    next
      case False
      with j have "Suc n \<le> j" by simp
      with r far j(2) show ?thesis by simp
    qed
  qed
  have "n \<le> n' - 1 \<and> n' = Suc (n' - 1) \<and> filename = uuid4_hex env (n' - 1) @ ext
        \<and> (\<forall>j. n \<le> j \<and> j < n' - 1 \<longrightarrow> d (uuid4_hex env j @ ext) \<noteq> None)"
    using le name before by simp
  then have "\<exists>ext k. n \<le> k \<and> n' = Suc k \<and> filename = uuid4_hex env k @ ext
               \<and> (\<forall>j. n \<le> j \<and> j < k \<longrightarrow> d (uuid4_hex env j @ ext) \<noteq> None)"
    by blast
  with free d' show ?thesis by simp
qed

lemma save_upload_image_example:
  "save_upload_image example_env (jpeg_upload ''x.jpg'') ([''0a.jpg'' \<mapsto> ''old''], 0)
     = Some (Inr ''10a.jpg'',
             ([''0a.jpg'' \<mapsto> ''old'', ''10a.jpg'' \<mapsto> u_content (jpeg_upload ''x.jpg'')], 2))"
  by (simp add: save_upload_image_def sniff_and_get_ext_def example_env_def jpeg_upload_def
      magic_pillow_def upper_def ALLOWED_IMAGE_EXTS_def while_exists_taken while_exists_free
      numeral_2_eq_2)

theorem save_upload_image_fresh_name_witness:
  "save_upload_image example_env (jpeg_upload ''x.jpg'') ([''0a.jpg'' \<mapsto> ''old''], 0)
     = Some (Inr ''10a.jpg'',
             ([''0a.jpg'' \<mapsto> ''old'', ''10a.jpg'' \<mapsto> u_content (jpeg_upload ''x.jpg'')], 2))
   \<and> [''0a.jpg'' \<mapsto> ''old''] ''10a.jpg'' = None
   \<and> (\<exists>ext k. (0::nat) \<le> k \<and> (2::nat) = Suc k \<and> ''10a.jpg'' = uuid4_hex example_env k @ ext
         \<and> (\<forall>j. 0 \<le> j \<and> j < k \<longrightarrow> [''0a.jpg'' \<mapsto> ''old''] (uuid4_hex example_env j @ ext) \<noteq> None))"
  using save_upload_image_fresh_name [OF save_upload_image_example] save_upload_image_example
  by blast

text \<open>
  What holds of every upload whose content does not decode as JPEG, PNG or WEBP: the call
  raises and leaves the directory as it was, and neither the file name nor the declared
  content type has a part in it. The exception is the \<open>ValueError\<close> of the code when the
  decoder names another format, and the decoder's own exception when it names none.
\<close>

lemma save_upload_image_rejects:
  assumes "\<not> decodes_as_allowed env f"
  shows "save_upload_image env f st =
           Some (Inl (case pillow env (u_content f) of
                        Inl e \<Rightarrow> e
                      | Inr format \<Rightarrow> ValueError ''Unsupported image format''), st)"
  using assms
  by (auto simp: decodes_as_allowed_def save_upload_image_def sniff_and_get_ext_def Let_def
      split: sum.splits)

lemma save_upload_image_ignores_names:
  "save_upload_image env (f\<lparr>u_filename := a, u_content_type := b\<rparr>) st = save_upload_image env f st"
proof -
  have "sniff_and_get_ext env (f\<lparr>u_filename := a, u_content_type := b\<rparr>) = sniff_and_get_ext env f"
    by (simp add: sniff_and_get_ext_def)
  then show ?thesis
    by (simp add: save_upload_image_def split: sum.splits option.splits)
qed

lemma sniffed_ext_allowed: "sniff_and_get_ext env f = Inr ext \<Longrightarrow> ext \<in> ALLOWED_IMAGE_EXTS"
  by (auto simp: sniff_and_get_ext_def ALLOWED_IMAGE_EXTS_def Let_def split: sum.splits if_splits)

lemma save_upload_image_written_only_if_allowed:
  assumes "save_upload_image env f st = Some (Inr filename, st')"
  shows "decodes_as_allowed env f"
  using assms
  by (auto simp: decodes_as_allowed_def save_upload_image_def sniff_and_get_ext_def Let_def
      split: sum.splits if_splits option.splits)

text \<open>
  C2 at a file of text that is named \<open>c.jpg\<close> and declared \<open>image/jpeg\<close>: nothing is
  written, but what is raised is the \<open>OSError\<close> of the decoder, not the \<open>ValueError\<close>
  with which the code rejects a format.
\<close>

theorem save_upload_image_undecodable:
  "\<not> decodes_as_allowed example_env (text_upload ''c.jpg'')
   \<and> save_upload_image example_env (text_upload ''c.jpg'') (Map.empty, 0)
       = Some (Inl (OSError ''cannot identify image file''), (Map.empty, 0))"
  by (simp add: decodes_as_allowed_def save_upload_image_def sniff_and_get_ext_def
      example_env_def text_upload_def magic_pillow_def)

section \<open>Validation and registration\<close>

lemma one_seller_eq:
  "one_seller =
     \<lparr>db = \<lparr>sellers = [\<lparr>s_id = 1, s_name = ''Amna'', s_whatsapp = ''+923001234567'',
                         s_pin_hash = ''pbkdf2:1234'', s_created_at = ''2024-01-01T00:00:00Z''\<rparr>],
            products = [], product_images = [],
            seq_sellers = 1, seq_products = 0, seq_product_images = 0\<rparr>,
      files = Map.empty, drawn = 0\<rparr>"
  by (simp add: one_seller_def amna_def sellers_register_def example_env_def empty_state_def
      normalize_whatsapp_def strip_def replace_space_def isspace_def isdigit_def str_isdigit_def
      insert_seller_def Let_def)

text \<open>
  C8: on malformed input \<open>create_product\<close> returns with the state as it was: no row is
  inserted, no file is stored. For a seller who is logged in the response is the 400 of
  the validation (without a login it is the 401 that comes before).
\<close>

theorem create_product_malformed_no_writes:
  assumes "malformed form files_in"
  shows "\<exists>resp. create_product env session form files_in created_at st = Some (resp, st)
           \<and> (logged_in session \<longrightarrow> (\<exists>msg. resp = Reply 400 (Error msg)))"
  using assms
  by (auto simp: malformed_def create_product_def logged_in_def Let_def
      split: option.splits)

theorem create_product_malformed_no_writes_witness:
  "malformed (lamp\<lparr>f_price := Some (Finite (- 1))\<rparr>) [jpeg_upload ''a.jpg'']
   \<and> logged_in (Some 1)
   \<and> create_product example_env (Some 1) (lamp\<lparr>f_price := Some (Finite (- 1))\<rparr>)
        [jpeg_upload ''a.jpg''] ''2024-01-02T00:00:00Z'' one_seller
      = Some (Reply 400 (Error ''Invalid input''), one_seller)"
proof -
  have m: "malformed (lamp\<lparr>f_price := Some (Finite (- 1))\<rparr>) [jpeg_upload ''a.jpg'']"
    by (simp add: malformed_def lamp_def)
  have l: "logged_in (Some 1)"
    by (simp add: logged_in_def current_seller_id_def)
  from create_product_malformed_no_writes [OF m, of example_env "Some 1"
      "''2024-01-02T00:00:00Z''" one_seller] l
  obtain msg where "create_product example_env (Some 1) (lamp\<lparr>f_price := Some (Finite (- 1))\<rparr>)
        [jpeg_upload ''a.jpg''] ''2024-01-02T00:00:00Z'' one_seller
      = Some (Reply 400 (Error msg), one_seller)" by blast
  moreover have "create_product example_env (Some 1) (lamp\<lparr>f_price := Some (Finite (- 1))\<rparr>)
        [jpeg_upload ''a.jpg''] ''2024-01-02T00:00:00Z'' one_seller
      = Some (Reply 400 (Error ''Invalid input''), one_seller)"
    by (simp add: create_product_def current_seller_id_def lamp_def)
  ultimately show ?thesis using m l by simp
qed





section \<open>The loop over the uploaded files\<close>

lemma save_images_Cons_cases:
  assumes run: "save_images env pid ca i (f # rest) l = Some (r, l')"
    and pid: "pid \<in> p_id ` set (products (work l))"
  obtains
    (skipped) "u_filename f = []" "save_images env pid ca (i + 1) rest l = Some (r, l')"
  | (rejected) e where "u_filename f \<noteq> []"
      "save_upload_image env f (disk l, rng l) = Some (Inl e, (disk l, rng l))"
      "r = Some e" "l' = l"
  | (stored) filename d n where "u_filename f \<noteq> []"
      "save_upload_image env f (disk l, rng l) = Some (Inr filename, (d, n))"
      "save_images env pid ca (i + 1) rest
         (l\<lparr>disk := d, rng := n, saved_filenames := saved_filenames l @ [filename],
            work := (work l)\<lparr>product_images := product_images (work l) @
                      [\<lparr>i_id = seq_product_images (work l) + 1, i_product_id = pid,
                        i_filename = filename, i_sort_order = i, i_created_at = ca\<rparr>],
                    seq_product_images := seq_product_images (work l) + 1\<rparr>\<rparr>)
       = Some (r, l')"
proof (cases "u_filename f = []")
  case True
  with run have "save_images env pid ca (i + 1) rest l = Some (r, l')" by simp
  with True show ?thesis by (rule skipped)
next
  case False
  from run False obtain res io where s: "save_upload_image env f (disk l, rng l) = Some (res, io)"
    by (cases "save_upload_image env f (disk l, rng l)") auto
  show ?thesis
  proof (cases res)
    case (Inl e)
    with s have io: "io = (disk l, rng l)" using save_upload_image_Inl by blast
    from run False s Inl io have "r = Some e" "l' = l" by simp_all
    with False s Inl io show ?thesis by (intro rejected [of e]) simp_all
  next
    case (Inr filename)
    obtain d n where io: "io = (d, n)" by (cases io)
    from run False s Inr io pid have
      "save_images env pid ca (i + 1) rest
         (l\<lparr>disk := d, rng := n, saved_filenames := saved_filenames l @ [filename],
            work := (work l)\<lparr>product_images := product_images (work l) @
                      [\<lparr>i_id = seq_product_images (work l) + 1, i_product_id = pid,
                        i_filename = filename, i_sort_order = i, i_created_at = ca\<rparr>],
                    seq_product_images := seq_product_images (work l) + 1\<rparr>\<rparr>)
       = Some (r, l')"
      by (simp add: insert_product_image_def Let_def)
    with False s Inr io show ?thesis by (intro stored [of filename d n]) simp_all
  qed
qed

lemma loop_effect_none: "loop_effect pid l l [] []"
  by (simp add: loop_effect_def)

lemma loop_effect_step:
  assumes free: "disk l filename = None"
    and row: "i_product_id row = pid" "i_filename row = filename"
    and l1: "work l1 = (work l)\<lparr>product_images := product_images (work l) @ [row],
                            seq_product_images := seq_product_images (work l) + 1\<rparr>"
      "disk l1 = (disk l)(filename \<mapsto> c)"
      "saved_filenames l1 = saved_filenames l @ [filename]"
    and rest: "loop_effect pid l1 l' ws rows"
  shows "loop_effect pid l l' ((filename, c) # ws) (row # rows)"
proof -
  note e = rest [unfolded loop_effect_def]
  from e have w: "work l' = (work l)\<lparr>product_images := product_images (work l) @ row # rows,
                         seq_product_images := seq_product_images (work l) + int (length (row # rows))\<rparr>"
    by (simp add: l1)
  from e have s: "saved_filenames l' = saved_filenames l @ map fst ((filename, c) # ws)"
    by (simp add: l1)
  from e have names: "map i_filename rows = map fst ws" by simp
  from e have pids: "list_all (\<lambda>x. i_product_id x = pid) rows" by simp
  from e have dist: "distinct (map fst ws)" by simp
  from e have fresh: "list_all (\<lambda>x. disk l1 (fst x) = None) ws" by simp
  from e have point: "\<And>x. disk l' x =
      (case map_of ws x of None \<Rightarrow> disk l1 x | Some c' \<Rightarrow> Some c')" by simp
  have notin: "filename \<notin> fst ` set ws"
  proof
    assume "filename \<in> fst ` set ws"
    then obtain x where "x \<in> set ws" "fst x = filename" by auto
    with fresh show False by (auto simp: list_all_iff l1)
  qed
  have fresh': "list_all (\<lambda>x. disk l (fst x) = None) ((filename, c) # ws)"
    using fresh notin free by (auto simp: list_all_iff l1 split: if_splits)
  have none: "map_of ws filename = None"
    using notin by (simp add: map_of_eq_None_iff)
  have point': "disk l' x =
      (case map_of ((filename, c) # ws) x of None \<Rightarrow> disk l x | Some c' \<Rightarrow> Some c')" for x
  proof (cases "x = filename")
    case True
    then show ?thesis using point [of x] none by (simp add: l1)
  next
    case False
    then show ?thesis using point [of x] by (simp add: l1 split: option.splits)
  qed
  have names': "map i_filename (row # rows) = map fst ((filename, c) # ws)"
    using names row by simp
  have pids': "list_all (\<lambda>x. i_product_id x = pid) (row # rows)"
    using pids row by simp
  have dist': "distinct (map fst ((filename, c) # ws))"
    using dist notin by simp
  show ?thesis
    unfolding loop_effect_def
    using w s names' pids' dist' fresh' point' by blast
qed

lemma save_images_products:
  assumes "save_images env pid ca i fs l = Some (r, l')"
  shows "products (work l') = products (work l) \<and> sellers (work l') = sellers (work l)
         \<and> seq_products (work l') = seq_products (work l)
         \<and> seq_sellers (work l') = seq_sellers (work l)"
  using assms
proof (induction fs arbitrary: i l)
  case Nil
  then show ?case by simp
next
  case (Cons f rest)
  show ?case
  proof (cases "u_filename f = []")
    case True
    with Cons.prems have "save_images env pid ca (i + 1) rest l = Some (r, l')" by simp
    then show ?thesis by (rule Cons.IH)
  next
    case False
    from Cons.prems False obtain res io where
      s: "save_upload_image env f (disk l, rng l) = Some (res, io)"
      by (cases "save_upload_image env f (disk l, rng l)") auto
    show ?thesis
    proof (cases res)
      case (Inl e)
      with Cons.prems False s show ?thesis by auto
    next
      case (Inr filename)
      show ?thesis
      proof (cases "insert_product_image pid filename i ca (work l)")
        case (Inl e)
        with Cons.prems False s Inr show ?thesis by (auto simp: Let_def)
      next
        case t: (Inr t)
        with Cons.prems False s Inr have
          "save_images env pid ca (i + 1) rest
             (l\<lparr>disk := fst io, rng := snd io,
                saved_filenames := saved_filenames l @ [filename], work := t\<rparr>) = Some (r, l')"
          by (simp add: Let_def)
        from Cons.IH [OF this] t show ?thesis
          by (auto simp: insert_product_image_def Let_def split: if_splits)
      qed
    qed
  qed
qed

lemma save_images_effect:
  assumes "save_images env pid ca i fs l = Some (r, l')"
    and "pid \<in> p_id ` set (products (work l))"
  shows "\<exists>ws rows. loop_effect pid l l' ws rows
           \<and> (r = None \<longrightarrow> map snd ws = map u_content (kept fs)
                           \<and> map i_sort_order rows = positions i fs)"
  using assms
proof (induction fs arbitrary: i l)
  case Nil
  then have "l' = l" "r = None" by simp_all
  then have "loop_effect pid l l' [] [] \<and> (r = None \<longrightarrow> map snd [] = map u_content (kept [])
                           \<and> map i_sort_order [] = positions i [])"
    by (simp add: loop_effect_none kept_def)
  then show ?case by blast
next
  case (Cons f rest)
  from Cons.prems show ?case
  proof (cases rule: save_images_Cons_cases)
    case skipped
    from Cons.IH [OF skipped(2) Cons.prems(2)] obtain ws rows where
      "loop_effect pid l l' ws rows"
      "r = None \<longrightarrow> map snd ws = map u_content (kept rest) \<and> map i_sort_order rows = positions (i + 1) rest"
      by blast
    with skipped(1) have "loop_effect pid l l' ws rows
           \<and> (r = None \<longrightarrow> map snd ws = map u_content (kept (f # rest))
                           \<and> map i_sort_order rows = positions i (f # rest))"
      by (simp add: kept_def)
    then show ?thesis by blast
  next
    case (rejected e)
    then have "loop_effect pid l l' [] [] \<and> (r = None \<longrightarrow> map snd [] = map u_content (kept (f # rest))
                           \<and> map i_sort_order [] = positions i (f # rest))"
      by (simp add: loop_effect_none)
    then show ?thesis by blast
  next
    case (stored filename d n)
    define row where "row = \<lparr>i_id = seq_product_images (work l) + 1, i_product_id = pid,
                        i_filename = filename, i_sort_order = i, i_created_at = ca\<rparr>"
    define l1 where "l1 = l\<lparr>disk := d, rng := n, saved_filenames := saved_filenames l @ [filename],
            work := (work l)\<lparr>product_images := product_images (work l) @ [row],
                    seq_product_images := seq_product_images (work l) + 1\<rparr>\<rparr>"
    from save_upload_image_stored [OF stored(2)]
    have free: "disk l filename = None" and d: "d = (disk l)(filename \<mapsto> u_content f)"
      by simp_all
    have run1: "save_images env pid ca (i + 1) rest l1 = Some (r, l')"
      using stored(3) by (simp add: l1_def row_def)
    have pid1: "pid \<in> p_id ` set (products (work l1))"
      using Cons.prems(2) by (simp add: l1_def)
    from Cons.IH [OF run1 pid1] obtain ws rows where
      eff: "loop_effect pid l1 l' ws rows"
      and ok: "r = None \<longrightarrow> map snd ws = map u_content (kept rest)
                 \<and> map i_sort_order rows = positions (i + 1) rest"
      by blast
    have "loop_effect pid l l' ((filename, u_content f) # ws) (row # rows)"
    proof (rule loop_effect_step [OF free _ _ _ _ _ eff])
      show "i_product_id row = pid" "i_filename row = filename" by (simp_all add: row_def)
      show "work l1 = (work l)\<lparr>product_images := product_images (work l) @ [row],
                            seq_product_images := seq_product_images (work l) + 1\<rparr>"
        by (simp add: l1_def)
      show "disk l1 = (disk l)(filename \<mapsto> u_content f)" by (simp add: l1_def d)
      show "saved_filenames l1 = saved_filenames l @ [filename]" by (simp add: l1_def)
    qed
    moreover have "r = None \<longrightarrow> map snd ((filename, u_content f) # ws) = map u_content (kept (f # rest))
                 \<and> map i_sort_order (row # rows) = positions i (f # rest)"
      using ok stored(1) by (simp add: kept_def row_def)
    ultimately show ?thesis by blast
  qed
qed

section \<open>The outcomes of \<open>create_product\<close>\<close>

lemma with_product_eq:
  "with_product sid form price ca t =
     t\<lparr>products := products t @
          [\<lparr>p_id = new_product_id t, p_name = strip (f_name form), p_price = price,
            p_details = strip (f_details form), p_created_at = ca, p_seller_id = Some sid\<rparr>],
       seq_products := new_product_id t\<rparr>"
  by (simp add: with_product_def new_product_id_def)

lemma insert_product_eq:
  "price \<noteq> NaN \<Longrightarrow>
   insert_product (strip (f_name form)) price (strip (f_details form)) ca sid t =
     Inr (new_product_id t, with_product sid form price ca t)"
  by (simp add: with_product_def insert_product_def new_product_id_def Let_def)

lemma insert_product_NaN:
  "insert_product name NaN details ca sid t =
     Inl (IntegrityError ''NOT NULL constraint failed: products.price'')"
  by (simp add: insert_product_def)

lemma create_product_cases:
  assumes run: "create_product env session form files_in ca st = Some (resp, st')"
  obtains
    (refused) code msg where "resp = Reply code (Error msg)" "st' = st"
  | (not_null) e where "resp = Uncaught e" "st' = st" "f_price form = Some NaN"
  | (ran) sid price r l where
      "session = Some sid" "sid \<noteq> 0" "f_price form = Some price" "price \<noteq> NaN"
      "save_images env (new_product_id (db st)) ca 0 files_in
         \<lparr>work = with_product sid form price ca (db st), disk = files st, rng = drawn st,
          saved_filenames = []\<rparr> = Some (r, l)"
      "case r of
         None \<Rightarrow>
           st' = \<lparr>db = work l, files = disk l, drawn = rng l\<rparr>
           \<and> (\<exists>row. find (\<lambda>p. p_id p = new_product_id (db st)) (products (work l)) = Some row
                 \<and> resp = Reply 201 (ProductJson (product_to_dict (work l) row (saved_filenames l))))
       | Some (ValueError msg) \<Rightarrow>
           resp = Reply 400 (Error msg)
           \<and> st' = \<lparr>db = delete_product_row (new_product_id (db st)) (work l),
                    files = remove_files (saved_filenames l) (disk l), drawn = rng l\<rparr>
       | Some e \<Rightarrow>
           resp = Uncaught e
           \<and> st' = \<lparr>db = with_product sid form price ca (db st), files = disk l, drawn = rng l\<rparr>"
proof (cases "malformed form files_in \<or> \<not> logged_in session")
  case True
  with run have "\<exists>code msg. resp = Reply code (Error msg) \<and> st' = st"
    by (auto simp: malformed_def create_product_def logged_in_def Let_def
        split: option.splits if_splits)
  then show ?thesis using refused by blast
next
  case False
  then obtain sid where sid: "session = Some sid" "sid \<noteq> 0"
    by (auto simp: logged_in_def current_seller_id_def split: option.splits)
  from False obtain price where price: "f_price form = Some price" "\<not> lt_zero price"
    by (auto simp: malformed_def split: option.splits)
  from False have ok: "strip (f_name form) \<noteq> []" "strip (f_details form) \<noteq> []"
    "\<not> length files_in > 5"
    by (simp_all add: malformed_def)
  show ?thesis
  proof (cases "price = NaN")
    case True
    with run sid price ok have "resp = Uncaught (IntegrityError
        ''NOT NULL constraint failed: products.price'')" "st' = st"
      by (simp_all add: create_product_def current_seller_id_def Let_def insert_product_NaN)
    with price(1) True show ?thesis by (intro not_null) simp_all
  next
    case number: False
  let ?l0 = "\<lparr>work = with_product sid form price ca (db st), disk = files st, rng = drawn st,
          saved_filenames = []\<rparr>"
  let ?pid = "new_product_id (db st)"
  have unfold: "create_product env session form files_in ca st =
     (case save_images env ?pid ca 0 files_in ?l0 of
        None \<Rightarrow> None
      | Some (None, l) \<Rightarrow>
          (case find (\<lambda>p. p_id p = ?pid) (products (work l)) of
             None \<Rightarrow> Some (Uncaught (TypeError ''NoneType''),
                           \<lparr>db = work l, files = disk l, drawn = rng l\<rparr>)
           | Some row \<Rightarrow>
               Some (Reply 201 (ProductJson (product_to_dict (work l) row (saved_filenames l))),
                     \<lparr>db = work l, files = disk l, drawn = rng l\<rparr>))
      | Some (Some e, l) \<Rightarrow>
          (case e of
             ValueError msg \<Rightarrow>
               Some (Reply 400 (Error msg),
                     \<lparr>db = delete_product_row ?pid (work l),
                      files = remove_files (saved_filenames l) (disk l), drawn = rng l\<rparr>)
           | _ \<Rightarrow> Some (Uncaught e,
                     \<lparr>db = with_product sid form price ca (db st), files = disk l, drawn = rng l\<rparr>)))"
    using sid price ok number
    by (simp add: create_product_def current_seller_id_def Let_def insert_product_eq)
  from run obtain r l where loop: "save_images env ?pid ca 0 files_in ?l0 = Some (r, l)"
    unfolding unfold by (cases "save_images env ?pid ca 0 files_in ?l0") auto
  from save_images_products [OF loop]
  have prods: "products (work l) = products (with_product sid form price ca (db st))" by simp
  have "\<exists>row. find (\<lambda>p. p_id p = ?pid) (products (work l)) = Some row"
    by (cases "find (\<lambda>p. p_id p = ?pid) (products (work l))")
      (auto simp: prods with_product_eq find_None_iff)
  then obtain row where row: "find (\<lambda>p. p_id p = ?pid) (products (work l)) = Some row" ..
  have "case r of
         None \<Rightarrow>
           st' = \<lparr>db = work l, files = disk l, drawn = rng l\<rparr>
           \<and> (\<exists>row. find (\<lambda>p. p_id p = ?pid) (products (work l)) = Some row
                 \<and> resp = Reply 201 (ProductJson (product_to_dict (work l) row (saved_filenames l))))
       | Some (ValueError msg) \<Rightarrow>
           resp = Reply 400 (Error msg)
           \<and> st' = \<lparr>db = delete_product_row ?pid (work l),
                    files = remove_files (saved_filenames l) (disk l), drawn = rng l\<rparr>
       | Some e \<Rightarrow>
           resp = Uncaught e
           \<and> st' = \<lparr>db = with_product sid form price ca (db st), files = disk l, drawn = rng l\<rparr>"
    using run unfolding unfold loop
    by (auto simp: row split: option.splits exn.splits)
  with sid price(1) number loop show ?thesis by (rule ran)
  qed
qed

section \<open>The order of the images\<close>






lemma store_ok_new_id:
  assumes "store_ok t"
  shows "new_product_id t \<notin> p_id ` set (products t)"
    and "filter (\<lambda>r. i_product_id r = new_product_id t) (product_images t) = []"
    and "filter (\<lambda>r. i_product_id r \<noteq> new_product_id t) (product_images t) = product_images t"
    and "filter (\<lambda>p. p_id p \<noteq> new_product_id t) (products t) = products t"
proof -
  from assms have le: "\<forall>p \<in> set (products t). p_id p \<le> seq_products t"
    and fk: "\<forall>r \<in> set (product_images t). i_product_id r \<in> p_id ` set (products t)"
    by (simp_all add: store_ok_def list_all_iff)
  from le show new: "new_product_id t \<notin> p_id ` set (products t)"
    by (auto simp: new_product_id_def)
  with fk have other: "\<forall>r \<in> set (product_images t). i_product_id r \<noteq> new_product_id t"
    by metis
  then show "filter (\<lambda>r. i_product_id r = new_product_id t) (product_images t) = []"
    by (simp add: filter_empty_conv)
  from other show "filter (\<lambda>r. i_product_id r \<noteq> new_product_id t) (product_images t)
      = product_images t"
    by (simp add: filter_id_conv)
  from new have "\<forall>p \<in> set (products t). p_id p \<noteq> new_product_id t"
    by (metis imageI)
  then show "filter (\<lambda>p. p_id p \<noteq> new_product_id t) (products t) = products t"
    by (simp add: filter_id_conv)
qed











lemmas run_defs =
  create_product_def current_seller_id_def insert_product_def insert_product_image_def
  save_upload_image_def sniff_and_get_ext_def ALLOWED_IMAGE_EXTS_def upper_def
  example_env_def magic_pillow_def jpeg_upload_def gif_upload_def text_upload_def
  while_exists_free while_exists_taken product_to_dict_def delete_product_row_def
  strip_def isspace_def lamp_def Let_def

lemma lamp_created:
  "create_product example_env (Some 1) lamp lamp_files ''2024-01-02T00:00:00Z'' one_seller
     = Some (Reply 201 (ProductJson lamp_view), lamp_state)"
  unfolding one_seller_eq lamp_files_def lamp_view_def lamp_state_def
  by (simp add: run_defs)




section \<open>Products and their sellers\<close>

lemma seller_refs_ok_iff:
  "seller_refs_ok t =
     (\<forall>p \<in> set (products t). \<forall>sid. p_seller_id p = Some sid \<longrightarrow> sid \<in> s_id ` set (sellers t))"
  by (auto simp: seller_refs_ok_def list_all_iff split: option.splits)

lemma store_ok_with_product: "store_ok t \<Longrightarrow> store_ok (with_product sid form price ca t)"
  by (fastforce simp: store_ok_def with_product_eq new_product_id_def list_all_iff)

lemma refs_ok_with_product:
  "seller_refs_ok t \<Longrightarrow> sid \<in> s_id ` set (sellers t) \<Longrightarrow>
     seller_refs_ok (with_product sid form price ca t)"
  by (auto simp: seller_refs_ok_iff with_product_eq)

lemma store_ok_rows:
  assumes "store_ok t" "list_all (\<lambda>x. i_product_id x = pid) rows" "pid \<in> p_id ` set (products t)"
  shows "store_ok (t\<lparr>product_images := product_images t @ rows, seq_product_images := n\<rparr>)"
  using assms by (auto simp: store_ok_def list_all_iff)

lemma refs_ok_rows:
  "seller_refs_ok t \<Longrightarrow>
     seller_refs_ok (t\<lparr>product_images := imgs, seq_product_images := n\<rparr>)"
  by (simp add: seller_refs_ok_iff)

lemma store_ok_delete: "store_ok t \<Longrightarrow> store_ok (delete_product_row pid t)"
  by (fastforce simp: store_ok_def delete_product_row_def list_all_iff)

lemma refs_ok_delete: "seller_refs_ok t \<Longrightarrow> seller_refs_ok (delete_product_row pid t)"
  by (auto simp: seller_refs_ok_iff delete_product_row_def)

lemma sellers_delete [simp]: "sellers (delete_product_row pid t) = sellers t"
  by (simp add: delete_product_row_def)

lemma sellers_with_product [simp]: "sellers (with_product sid form price ca t) = sellers t"
  by (simp add: with_product_eq)

lemma create_product_keeps_ok:
  assumes run: "create_product env session form files_in ca st = Some (resp, st')"
    and refs: "seller_refs_ok (db st)" and ok: "store_ok (db st)"
    and sess: "\<forall>sid. session = Some sid \<longrightarrow> sid \<in> s_id ` set (sellers (db st))"
  shows "seller_refs_ok (db st') \<and> store_ok (db st') \<and> sellers (db st') = sellers (db st)"
  using run
proof (cases rule: create_product_cases)
  case (refused code msg)
  with refs ok show ?thesis by simp
next
  case (not_null e)
  with refs ok show ?thesis by simp
next
  case (ran sid price r l)
  let ?pid = "new_product_id (db st)"
  let ?t1 = "with_product sid form price ca (db st)"
  from sess ran(1) have sid: "sid \<in> s_id ` set (sellers (db st))" by simp
  have ok1: "store_ok ?t1" using ok by (rule store_ok_with_product)
  have refs1: "seller_refs_ok ?t1" using refs sid by (rule refs_ok_with_product)
  have pid1: "?pid \<in> p_id ` set (products ?t1)" by (simp add: with_product_eq)
  then have pid1': "?pid \<in> p_id ` set (products (work \<lparr>work = ?t1, disk = files st,
      rng = drawn st, saved_filenames = []\<rparr>))" by simp
  from save_images_effect [OF ran(5) pid1'] obtain ws rows where
    eff: "loop_effect ?pid \<lparr>work = ?t1, disk = files st, rng = drawn st, saved_filenames = []\<rparr>
            l ws rows" by blast
  note e = eff [unfolded loop_effect_def]
  from e have work: "work l = ?t1\<lparr>product_images := product_images ?t1 @ rows,
          seq_product_images := seq_product_images ?t1 + int (length rows)\<rparr>"
    and pids: "list_all (\<lambda>x. i_product_id x = ?pid) rows"
    by simp_all
  have okl: "store_ok (work l)"
    unfolding work using ok1 pids pid1 by (rule store_ok_rows)
  have refsl: "seller_refs_ok (work l)"
    unfolding work using refs1 by (rule refs_ok_rows)
  have sl: "sellers (work l) = sellers (db st)" by (simp add: work)
  show ?thesis
  proof (cases r)
    case None
    with ran(6) have "db st' = work l" by auto
    with okl refsl sl show ?thesis by simp
  next
    case (Some e)
    show ?thesis
    proof (cases e)
      case (ValueError msg)
      with Some ran(6) have "db st' = delete_product_row ?pid (work l)" by simp
      with okl refsl sl show ?thesis by (simp add: store_ok_delete refs_ok_delete)
    next
      case (OSError m)
      with Some ran(6) have "db st' = ?t1" by simp
      with ok1 refs1 show ?thesis by simp
    next
      case (IntegrityError m)
      with Some ran(6) have "db st' = ?t1" by simp
      with ok1 refs1 show ?thesis by simp
    next
      case (OperationalError m)
      with Some ran(6) have "db st' = ?t1" by simp
      with ok1 refs1 show ?thesis by simp
    next
      case (TypeError m)
      with Some ran(6) have "db st' = ?t1" by simp
      with ok1 refs1 show ?thesis by simp
    qed
  qed
qed

lemma delete_product_keeps_ok:
  assumes "delete_product session product_id st = (resp, st')"
    and "seller_refs_ok (db st)" and "store_ok (db st)"
  shows "seller_refs_ok (db st') \<and> store_ok (db st') \<and> sellers (db st') = sellers (db st)"
  using assms
  by (auto simp: delete_product_def Let_def store_ok_delete refs_ok_delete
      split: option.splits if_splits)

lemma sellers_register_effect:
  assumes "sellers_register env data ca session st = (resp, session', st')"
  shows "(st' = st \<and> session' = session)
         \<or> (db st' = (db st)\<lparr>sellers := sellers (db st) @
                 [\<lparr>s_id = seq_sellers (db st) + 1, s_name = strip (d_name data),
                   s_whatsapp = normalize_whatsapp (d_whatsapp data),
                   s_pin_hash = generate_password_hash env (strip (d_pin data)),
                   s_created_at = ca\<rparr>],
               seq_sellers := seq_sellers (db st) + 1\<rparr>
             \<and> session' = Some (seq_sellers (db st) + 1))"
  using assms
  by (auto simp: sellers_register_def insert_seller_def Let_def
      split: if_splits sum.splits exn.splits)

lemma sellers_register_keeps_ok:
  assumes run: "sellers_register env data ca session st = (resp, session', st')"
    and refs: "seller_refs_ok (db st)" and ok: "store_ok (db st)"
  shows "seller_refs_ok (db st') \<and> store_ok (db st')
         \<and> set (sellers (db st)) \<subseteq> set (sellers (db st'))
         \<and> (session' = session \<or> (\<exists>sid. session' = Some sid \<and> sid \<in> s_id ` set (sellers (db st'))))"
  using sellers_register_effect [OF run]
proof
  assume "st' = st \<and> session' = session"
  with refs ok show ?thesis by simp
next
  assume "db st' = (db st)\<lparr>sellers := sellers (db st) @
                 [\<lparr>s_id = seq_sellers (db st) + 1, s_name = strip (d_name data),
                   s_whatsapp = normalize_whatsapp (d_whatsapp data),
                   s_pin_hash = generate_password_hash env (strip (d_pin data)),
                   s_created_at = ca\<rparr>],
               seq_sellers := seq_sellers (db st) + 1\<rparr>
             \<and> session' = Some (seq_sellers (db st) + 1)"
  then obtain new where id: "s_id new = seq_sellers (db st) + 1"
    and new: "db st' = (db st)\<lparr>sellers := sellers (db st) @ [new],
                                   seq_sellers := seq_sellers (db st) + 1\<rparr>"
    and s: "session' = Some (seq_sellers (db st) + 1)"
    by (metis seller.select_convs(1))
  have "seller_refs_ok (db st')"
    using refs unfolding seller_refs_ok_iff new by auto
  moreover have "store_ok (db st')"
    using ok unfolding new store_ok_def by simp
  moreover have "set (sellers (db st)) \<subseteq> set (sellers (db st'))"
    by (auto simp: new)
  moreover have "seq_sellers (db st) + 1 \<in> s_id ` set (sellers (db st'))"
    using id by (simp add: new)
  ultimately show ?thesis using s by simp
qed

lemma sellers_login_keeps:
  assumes "sellers_login env data session st = (resp, session', st')"
  shows "st' = st
         \<and> (session' = session \<or> (\<exists>sid. session' = Some sid \<and> sid \<in> s_id ` set (sellers (db st))))"
  using assms
  by (auto simp: sellers_login_def Let_def find_Some_iff split: if_splits option.splits)

lemma may_send_known:
  assumes "world_ok w" "may_send w session"
  shows "\<forall>sid. session = Some sid \<longrightarrow> sid \<in> s_id ` set (sellers (db (now w)))"
  using assms by (auto simp: world_ok_def may_send_def)

lemma issue_known:
  assumes "c \<subseteq> s" and "session = None \<or> (\<exists>sid. session = Some sid \<and> sid \<in> s)"
  shows "issue session c \<subseteq> s"
  using assms by (auto simp: issue_def)

lemma reachable_world_ok: "reachable env w \<Longrightarrow> world_ok w"
proof (induction rule: reachable.induct)
  case start
  show ?case
    by (simp add: world_ok_def empty_state_def seller_refs_ok_def store_ok_def)
next
  case (register w session data created_at resp session' st')
  from register.IH have refs: "seller_refs_ok (db (now w))" and ok: "store_ok (db (now w))"
    and c: "cookies w \<subseteq> s_id ` set (sellers (db (now w)))"
    by (simp_all add: world_ok_def)
  note k = sellers_register_keeps_ok [OF register.hyps(3) refs ok]
  from k have grow: "set (sellers (db (now w))) \<subseteq> set (sellers (db st'))" by simp
  with c have c': "cookies w \<subseteq> s_id ` set (sellers (db st'))" by blast
  from may_send_known [OF register.IH register.hyps(2)] grow
  have old: "\<forall>sid. session = Some sid \<longrightarrow> sid \<in> s_id ` set (sellers (db st'))" by blast
  from k old have "session' = None \<or> (\<exists>sid. session' = Some sid \<and> sid \<in> s_id ` set (sellers (db st')))"
    by (cases session') auto
  with c' have "issue session' (cookies w) \<subseteq> s_id ` set (sellers (db st'))"
    by (rule issue_known)
  with k show ?case by (simp add: world_ok_def)
next
  case (login w session data resp session' st')
  from login.IH have c: "cookies w \<subseteq> s_id ` set (sellers (db (now w)))"
    by (simp add: world_ok_def)
  note k = sellers_login_keeps [OF login.hyps(3)]
  from may_send_known [OF login.IH login.hyps(2)] k
  have "session' = None \<or> (\<exists>sid. session' = Some sid \<and> sid \<in> s_id ` set (sellers (db (now w))))"
    by (cases session') auto
  with c have "issue session' (cookies w) \<subseteq> s_id ` set (sellers (db (now w)))"
    by (rule issue_known)
  with k login.IH show ?case by (simp add: world_ok_def)
next
  case (create w session form files_in created_at resp st')
  from create.IH have refs: "seller_refs_ok (db (now w))" and ok: "store_ok (db (now w))"
    and c: "cookies w \<subseteq> s_id ` set (sellers (db (now w)))"
    by (simp_all add: world_ok_def)
  from create_product_keeps_ok [OF create.hyps(3) refs ok
      may_send_known [OF create.IH create.hyps(2)]] c
  show ?case by (simp add: world_ok_def)
next
  case (delete w session product_id resp st')
  from delete.IH have refs: "seller_refs_ok (db (now w))" and ok: "store_ok (db (now w))"
    and c: "cookies w \<subseteq> s_id ` set (sellers (db (now w)))"
    by (simp_all add: world_ok_def)
  from delete_product_keeps_ok [OF delete.hyps(3) refs ok] c
  show ?case by (simp add: world_ok_def)
qed

text \<open>
  C7: in every state that registrations, logins, product creations and product
  deletions reach from the empty store, a product whose \<open>seller_id\<close> is set refers to a
  seller that exists. The column has no foreign key; the invariant holds because the
  id comes from a session cookie, cookies are issued for sellers that exist, and no
  seller is ever deleted.
\<close>

theorem reachable_products_refer_to_sellers:
  assumes "reachable env w"
  shows "seller_refs_ok (db (now w))"
  using reachable_world_ok [OF assms] by (simp add: world_ok_def)

lemma amna_registered:
  "sellers_register example_env amna ''2024-01-01T00:00:00Z'' None empty_state
     = (Reply 201 (SellerJson 1 ''Amna'' ''+923001234567'' ''2024-01-01T00:00:00Z''), Some 1, one_seller)"
  unfolding one_seller_eq
  by (simp add: amna_def sellers_register_def example_env_def empty_state_def
      normalize_whatsapp_def strip_def replace_space_def isspace_def isdigit_def str_isdigit_def
      insert_seller_def Let_def)

lemma lamp_world_reachable: "reachable example_env \<lparr>now = lamp_state, cookies = {1}\<rparr>"
proof -
  have "reachable example_env
          \<lparr>now = one_seller, cookies = issue (Some 1) (cookies \<lparr>now = empty_state, cookies = {}\<rparr>)\<rparr>"
    by (rule reachable.register [OF reachable.start, where session = None and data = amna
          and created_at = "''2024-01-01T00:00:00Z''"
          and resp = "Reply 201 (SellerJson 1 ''Amna'' ''+923001234567'' ''2024-01-01T00:00:00Z'')"])
       (simp_all add: may_send_def amna_registered)
  then have r1: "reachable example_env \<lparr>now = one_seller, cookies = {1}\<rparr>"
    by (simp add: issue_def)
  have "reachable example_env
          \<lparr>now = lamp_state, cookies = cookies \<lparr>now = one_seller, cookies = {1}\<rparr>\<rparr>"
    by (rule reachable.create [OF r1, where session = "Some 1" and form = lamp
          and files_in = lamp_files and created_at = "''2024-01-02T00:00:00Z''"
          and resp = "Reply 201 (ProductJson lamp_view)"])
       (simp_all add: may_send_def lamp_created)
  then show ?thesis by simp
qed

theorem reachable_products_refer_to_sellers_witness:
  "reachable example_env \<lparr>now = lamp_state, cookies = {1}\<rparr>
   \<and> seller_refs_ok (db (now \<lparr>now = lamp_state, cookies = {1}\<rparr>))
   \<and> map p_seller_id (products (db lamp_state)) = [Some 1]
   \<and> map s_id (sellers (db lamp_state)) = [1]"
  using reachable_products_refer_to_sellers [OF lamp_world_reachable] lamp_world_reachable
  by (simp add: lamp_state_def)

section \<open>Failure while the images are stored\<close>

lemma remove_files_apply: "remove_files fns d x = (if x \<in> set fns then None else d x)"
  by (induction fns arbitrary: d) auto

text \<open>
  When the loop ends with a \<open>ValueError\<close> (the decoder has found a format that is not
  allowed) the handler undoes the call: the answer is a 400 and the rows and the files
  are those from before the request. The same holds of the 400 of the validation.
\<close>

lemma create_product_rejected_rolls_back:
  assumes ok: "store_ok (db st)"
    and run: "create_product env session form files_in ca st = Some (Reply 400 (Error msg), st')"
  shows "sellers (db st') = sellers (db st) \<and> products (db st') = products (db st)
         \<and> product_images (db st') = product_images (db st) \<and> files st' = files st"
  using run
proof (cases rule: create_product_cases)
  case (refused code msg')
  then show ?thesis by simp
next
  case (not_null e)
  then show ?thesis by simp
next
  case (ran sid price r l)
  let ?pid = "new_product_id (db st)"
  let ?t1 = "with_product sid form price ca (db st)"
  let ?l0 = "\<lparr>work = ?t1, disk = files st, rng = drawn st, saved_filenames = []\<rparr>"
  from ran(6) have r: "r = Some (ValueError msg)"
    by (cases r) (auto split: exn.splits)
  with ran(6) have st': "st' = \<lparr>db = delete_product_row ?pid (work l),
                    files = remove_files (saved_filenames l) (disk l), drawn = rng l\<rparr>"
    by simp
  have pid1: "?pid \<in> p_id ` set (products (work ?l0))"
    by (simp add: with_product_eq)
  from save_images_effect [OF ran(5) pid1] obtain ws rows where
    eff: "loop_effect ?pid ?l0 l ws rows" by blast
  note e = eff [unfolded loop_effect_def]
  from e have work: "work l = ?t1\<lparr>product_images := product_images ?t1 @ rows,
          seq_product_images := seq_product_images ?t1 + int (length rows)\<rparr>"
    and saved: "saved_filenames l = map fst ws"
    and pids: "list_all (\<lambda>x. i_product_id x = ?pid) rows"
    and fresh: "list_all (\<lambda>x. files st (fst x) = None) ws"
    by simp_all
  from e have "\<forall>x. disk l x = (case map_of ws x of None \<Rightarrow> disk ?l0 x | Some c \<Rightarrow> Some c)"
    by blast
  then have point: "disk l x = (case map_of ws x of None \<Rightarrow> files st x | Some c \<Rightarrow> Some c)"
    for x by (simp split: option.splits)
  have "filter (\<lambda>r. i_product_id r \<noteq> ?pid) rows = []"
    using pids by (simp add: filter_empty_conv list_all_iff)
  then have imgs: "product_images (db st') = product_images (db st)"
    by (simp add: st' delete_product_row_def work with_product_eq store_ok_new_id(3) [OF ok])
  have prods: "products (db st') = products (db st)"
    by (simp add: st' delete_product_row_def work with_product_eq store_ok_new_id(4) [OF ok])
  have "remove_files (saved_filenames l) (disk l) x = files st x" for x
  proof (cases "x \<in> fst ` set ws")
    case True
    with fresh have "files st x = None" by (auto simp: list_all_iff)
    with True show ?thesis by (simp add: remove_files_apply saved)
  next
    case False
    then have "map_of ws x = None" by (simp add: map_of_eq_None_iff)
    with False show ?thesis by (simp add: remove_files_apply saved point)
  qed
  then have "files st' = files st" by (auto simp: st')
  with imgs prods show ?thesis by (simp add: st' work)
qed

text \<open>
  Any other exception of the loop leaves the handler, and the product row inserted
  before the loop stays in the store.
\<close>

lemma create_product_uncaught_keeps_row:
  assumes run: "create_product env session form files_in ca st = Some (Uncaught e, st')"
    and price: "f_price form \<noteq> Some NaN"
  shows "new_product_id (db st) \<in> p_id ` set (products (db st'))"
  using run
proof (cases rule: create_product_cases)
  case (refused code msg)
  then show ?thesis by simp
next
  case (not_null e')
  with price show ?thesis by simp
next
  case (ran sid price r l)
  from ran(6) have "db st' = with_product sid form price ca (db st)"
    by (cases r) (auto split: exn.splits)
  then show ?thesis by (simp add: with_product_eq)
qed

lemma gif_rolled_back:
  "create_product example_env (Some 1) lamp third_is_gif ''2024-01-02T00:00:00Z'' one_seller
     = Some (Reply 400 (Error ''Unsupported image format''),
             one_seller\<lparr>db := (db one_seller)\<lparr>seq_products := 1, seq_product_images := 2\<rparr>,
                        drawn := 2\<rparr>)"
  unfolding one_seller_eq third_is_gif_def
  by (simp add: run_defs fun_upd_twist)

text \<open>
  C1 at four files of which the third is text named \<open>c.jpg\<close>: the decoder raises an
  \<open>OSError\<close>, which the \<open>except ValueError\<close> of the handler does not catch. The request
  ends with this exception; the product row, committed before the loop, stays, and so
  do the two files written before. (The two image rows were not committed and are gone
  with the connection.)
\<close>

theorem create_product_undecodable_leaves_orphans:
  "create_product example_env (Some 1) lamp third_is_text ''2024-01-02T00:00:00Z'' one_seller
     = Some (Uncaught (OSError ''cannot identify image file''), orphaned_state)
   \<and> products (db one_seller) = []
   \<and> map p_id (products (db orphaned_state)) = [1]
   \<and> files one_seller ''0a.jpg'' = None
   \<and> files orphaned_state ''0a.jpg'' = Some (u_content (jpeg_upload ''a.jpg''))
   \<and> files orphaned_state ''10a.jpg'' = Some (u_content (jpeg_upload ''b.jpg''))"
proof -
  have "create_product example_env (Some 1) lamp third_is_text ''2024-01-02T00:00:00Z'' one_seller
     = Some (Uncaught (OSError ''cannot identify image file''), orphaned_state)"
    unfolding one_seller_eq third_is_text_def orphaned_state_def
    by (simp add: run_defs)
  then show ?thesis
    by (simp add: one_seller_eq orphaned_state_def)
qed

end
